theory Spec2Isabelle
  imports Complex_Main "HOL-Library.Code_Target_Numeral"
begin

section \<open>Python values, errors and the world of \<^verbatim>\<open>khp/contacts.py\<close>\<close>

text \<open>
  The module moves JSON payloads from a remote service to files and from files to three
  Postgres relations. A value that ends up in a relation is a scalar; a raw payload is
  nested JSON. \<open>SNaN\<close> is the floating not-a-number, kept apart from the other floats
  because \<^verbatim>\<open>pd.isnull\<close> singles it out.
\<close>

datatype scalar = SNone | SNaN | SBool bool | SInt int | SFloat real | SStr string

datatype pyval = PS scalar | PList "pyval list" | PDict "(string \<times> pyval) list"

text \<open>A flattened record (one row to load, or one row read back): column name to scalar,
  in insertion order, as a Python \<^verbatim>\<open>dict\<close> keeps it.\<close>

type_synonym row = "(string \<times> scalar) list"

text \<open>The exceptions the module can end with. \<open>StorageError\<close> is the exception of the
  storage collaborator on a query that Postgres rejects.\<close>

datatype error =
    KeyError string
  | TypeError
  | IndexError
  | ValueError
  | OverflowError
  | FileNotFoundError
  | StorageError
  | Exception string

datatype level = INFO | WARNING

text \<open>
  A log record is its level, its format string and its argument. An identifier read from
  a relation is an integer or \<^verbatim>\<open>None\<close> (SQL NULL). \<open>ArgIdSet\<close> is the argument of
  line 89, a list made of a Python set: the order of such a list is that of the
  interpreter's hash table, which the model leaves open by keeping the set.
\<close>

datatype logarg =
    NoArg
  | ArgStr string
  | ArgNat nat
  | ArgId "int option"
  | ArgIds "int option list"
  | ArgIdSet "int set"

type_synonym logrec = "level \<times> string \<times> logarg"

datatype call =
    GetContacts string "(string \<times> string) option"
  | GetRecordings "int list"

datatype table = Contacts | Transcripts | Enhanced

text \<open>
  The calls that change a store: \<^verbatim>\<open>utils.write_jason\<close> with its path, the
  \<^verbatim>\<open>UPDATE\<close> of line 95 with its identifiers, and \<^verbatim>\<open>postgrez.load\<close> with its table
  and the number of its rows.
\<close>

datatype store_call =
    WriteJason string
  | ExecuteUpdate "int list"
  | PostgrezLoad table nat

text \<open>
  The world the module acts on: the files of the output directory (base name to content),
  the three relations, and three records of what the module did so far, each in order:
  the remote calls, the calls that changed a store, and the log.
\<close>

record world =
  fs :: "(string \<times> pyval) list"
  contacts_tbl :: "row list"
  transcripts_tbl :: "row list"
  enhanced_tbl :: "row list"
  remote_calls :: "call list"
  store_calls :: "store_call list"
  log_out :: "logrec list"

text \<open>
  The collaborators and the configuration, none of which is part of the module: the
  remote service (its answer may depend on the calls made before), the four configured
  transform pipelines of \<^verbatim>\<open>khp.transforms.Transformer\<close>, the output directory,
  the order in which Postgres returns rows under \<^verbatim>\<open>ORDER BY contact_id, dt ASC\<close> and
  the clock (the day number of today, see the section on dates). \<open>tf_recording\<close> stands for
  \<^verbatim>\<open>Transformer(TRANSFORMS["recording"]).run_transforms(t)['messages']\<close>; a data
  frame is the list of its rows.
  A collaborator that raises ends the run with its own exception; such runs are not part
  of this model.
\<close>

record env =
  ICESCAPE_OUTPUT_DIR :: string
  ice_get_contacts :: "call list \<Rightarrow> string \<Rightarrow> (string \<times> string) option \<Rightarrow> pyval"
  ice_get_recordings :: "call list \<Rightarrow> int list \<Rightarrow> pyval list"
  tf_contacts :: "pyval \<Rightarrow> row"
  tf_recording :: "pyval \<Rightarrow> row list"
  tf_transcripts :: "row list \<Rightarrow> row list"
  tf_transcript_summary :: "row list \<Rightarrow> row"
  order_by_dt :: "row list \<Rightarrow> row list"
  today :: nat

subsection \<open>Dictionaries, strings and paths\<close>

text \<open>\<^verbatim>\<open>d[k] = v\<close>: an existing key keeps its place, a new key goes last.\<close>

fun dict_set :: "('k \<times> 'v) list \<Rightarrow> 'k \<Rightarrow> 'v \<Rightarrow> ('k \<times> 'v) list" where
  "dict_set [] k v = [(k, v)]"
| "dict_set ((k', v') # d) k v = (if k' = k then (k, v) # d else (k', v') # dict_set d k v)"

text \<open>\<^verbatim>\<open>d[k]\<close> on a row: the value, or \<^verbatim>\<open>KeyError\<close>.\<close>

definition row_get :: "row \<Rightarrow> string \<Rightarrow> error + scalar" where
  "row_get d k = (case map_of d k of Some v \<Rightarrow> Inr v | None \<Rightarrow> Inl (KeyError k))"

text \<open>A column read back by a query: SQL NULL, Python \<^verbatim>\<open>None\<close>, where the row has no value.\<close>

definition column :: "string \<Rightarrow> row \<Rightarrow> scalar" where
  "column k r = (case map_of r k of Some v \<Rightarrow> v | None \<Rightarrow> SNone)"

text \<open>\<^verbatim>\<open>x[k]\<close> for a string key on a JSON value.\<close>

fun py_getitem :: "pyval \<Rightarrow> string \<Rightarrow> error + pyval" where
  "py_getitem (PDict d) k = (case map_of d k of Some v \<Rightarrow> Inr v | None \<Rightarrow> Inl (KeyError k))"
| "py_getitem _ k = Inl TypeError"

text \<open>Python truthiness, for \<^verbatim>\<open>if not contacts\<close>.\<close>

fun truthy :: "pyval \<Rightarrow> bool" where
  "truthy (PS SNone) = False"
| "truthy (PS SNaN) = True"
| "truthy (PS (SBool b)) = b"
| "truthy (PS (SInt n)) = (n \<noteq> 0)"
| "truthy (PS (SFloat x)) = (x \<noteq> 0)"
| "truthy (PS (SStr s)) = (s \<noteq> [])"
| "truthy (PList xs) = (xs \<noteq> [])"
| "truthy (PDict d) = (d \<noteq> [])"

text \<open>\<^verbatim>\<open>for x in v\<close>: the elements of a list, the keys of a dict, the characters of a
  string; anything else is not iterable.\<close>

fun py_iter :: "pyval \<Rightarrow> error + pyval list" where
  "py_iter (PList xs) = Inr xs"
| "py_iter (PDict d) = Inr (map (\<lambda>kv. PS (SStr (fst kv))) d)"
| "py_iter (PS (SStr s)) = Inr (map (\<lambda>c. PS (SStr [c])) s)"
| "py_iter (PS _) = Inl TypeError"

text \<open>\<^verbatim>\<open>str(n)\<close> for an integer.\<close>

definition digit_char :: "nat \<Rightarrow> char" where
  "digit_char d = char_of (48 + d)"

fun str_nat :: "nat \<Rightarrow> string" where
  "str_nat n = (if n < 10 then [digit_char n] else str_nat (n div 10) @ [digit_char (n mod 10)])"

declare str_nat.simps [simp del]

definition str_int :: "int \<Rightarrow> string" where
  "str_int i = (if i < 0 then CHR ''-'' # str_nat (nat (- i)) else str_nat (nat i))"

text \<open>\<^verbatim>\<open>os.path.join\<close> and \<^verbatim>\<open>os.path.basename\<close> of \<^verbatim>\<open>posixpath\<close>.\<close>

definition os_path_join :: "string \<Rightarrow> string \<Rightarrow> string" where
  "os_path_join a b =
     (if b \<noteq> [] \<and> hd b = CHR ''/'' then b
      else if a = [] \<or> last a = CHR ''/'' then a @ b
      else a @ ''/'' @ b)"

definition os_path_basename :: "string \<Rightarrow> string" where
  "os_path_basename p = rev (takeWhile (\<lambda>c. c \<noteq> CHR ''/'') (rev p))"

subsection \<open>The helpers of \<^verbatim>\<open>khp.utils\<close> and the storage collaborator\<close>

text \<open>
  Modelled from the spec: \<^verbatim>\<open>utils.chunker\<close> is not among the sources. The spec has
  the identifiers "split into fixed-size chunks", one remote call per chunk: consecutive
  slices of the given size, the last one shorter when the length is no multiple of it.
\<close>

fun chunker :: "'a list \<Rightarrow> nat \<Rightarrow> 'a list list" where
  "chunker xs n = (if xs = [] \<or> n = 0 then [] else take n xs # chunker (drop n xs) n)"

declare chunker.simps [simp del]

text \<open>
  Modelled from the spec: \<^verbatim>\<open>utils.write_jason\<close> and \<^verbatim>\<open>utils.read_jason\<close> are not
  among the sources. The spec has them write and read JSON payloads at
  \<^verbatim>\<open>{output_dir}/{filename}\<close>; a write replaces what the file held. The model keeps
  the files of the output directory only, under their base names: a path that does not lead
  to a file of that directory reads as a missing file, and a write to it leaves the files
  of the directory as they are.
\<close>

definition write_jason :: "env \<Rightarrow> pyval \<Rightarrow> string \<Rightarrow> world \<Rightarrow> world" where
  "write_jason e data filepath w =
     (let b = os_path_basename filepath;
          w1 = w\<lparr>store_calls := store_calls w @ [WriteJason filepath]\<rparr>
      in if os_path_join (ICESCAPE_OUTPUT_DIR e) b = filepath
         then w1\<lparr>fs := dict_set (fs w) b data\<rparr> else w1)"

definition read_jason :: "env \<Rightarrow> string \<Rightarrow> world \<Rightarrow> error + pyval" where
  "read_jason e filepath w =
     (let b = os_path_basename filepath in
      if os_path_join (ICESCAPE_OUTPUT_DIR e) b = filepath
      then (case map_of (fs w) b of Some v \<Rightarrow> Inr v | None \<Rightarrow> Inl FileNotFoundError)
      else Inl FileNotFoundError)"

definition save_data :: "env \<Rightarrow> pyval \<Rightarrow> string \<Rightarrow> world \<Rightarrow> world" where
  "save_data e data filename w =
     write_jason e data (os_path_join (ICESCAPE_OUTPUT_DIR e) filename) w"

definition log_add :: "level \<Rightarrow> string \<Rightarrow> logarg \<Rightarrow> world \<Rightarrow> world" where
  "log_add l m a w = w\<lparr>log_out := log_out w @ [(l, m, a)]\<rparr>"

text \<open>
  The storage collaborator (\<^verbatim>\<open>postgrez\<close> on Postgres) is outside the repository. Its
  \<^verbatim>\<open>load(table_name, data, columns)\<close> appends one row per element of \<^verbatim>\<open>data\<close>, the
  values under the given columns; each \<^verbatim>\<open>execute(query)\<close> of the module is modelled
  by what its SQL text selects or updates.
\<close>

definition postgrez_load :: "table \<Rightarrow> scalar list list \<Rightarrow> string list \<Rightarrow> world \<Rightarrow> world" where
  "postgrez_load t data columns w =
     (let new = map (\<lambda>vals. zip columns vals) data;
          w1 = w\<lparr>store_calls := store_calls w @ [PostgrezLoad t (length data)]\<rparr>
      in case t of
           Contacts \<Rightarrow> w1\<lparr>contacts_tbl := contacts_tbl w @ new\<rparr>
         | Transcripts \<Rightarrow> w1\<lparr>transcripts_tbl := transcripts_tbl w @ new\<rparr>
         | Enhanced \<Rightarrow> w1\<lparr>enhanced_tbl := enhanced_tbl w @ new\<rparr>)"

text \<open>\<^verbatim>\<open>SELECT contact_id FROM contacts WHERE transcript_downloaded=FALSE AND agent_id IS NOT NULL\<close>;
  \<^verbatim>\<open>contact_id\<close> is the key of the relation, an integer in every row.\<close>

definition pending_contact_ids :: "world \<Rightarrow> int list" where
  "pending_contact_ids w =
     concat (map (\<lambda>r. case column ''contact_id'' r of
                         SInt n \<Rightarrow> (if column ''transcript_downloaded'' r = SBool False
                                        \<and> column ''agent_id'' r \<noteq> SNone then [n] else [])
                       | _ \<Rightarrow> [])
                 (contacts_tbl w))"

text \<open>\<^verbatim>\<open>UPDATE contacts SET transcript_downloaded=TRUE WHERE contact_id IN (...)\<close>.\<close>

definition mark_rows :: "int list \<Rightarrow> row list \<Rightarrow> row list" where
  "mark_rows ids rows =
     map (\<lambda>r. case column ''contact_id'' r of
                 SInt n \<Rightarrow> (if n \<in> set ids then dict_set r ''transcript_downloaded'' (SBool True) else r)
               | _ \<Rightarrow> r)
         rows"

definition mark_downloaded :: "int list \<Rightarrow> world \<Rightarrow> world" where
  "mark_downloaded ids w =
     w\<lparr>contacts_tbl := mark_rows ids (contacts_tbl w),
       store_calls := store_calls w @ [ExecuteUpdate ids]\<rparr>"

section \<open>\<^verbatim>\<open>download_transcripts\<close>\<close>

text \<open>Python's \<open>==\<close> between an integer and a JSON scalar (\<^verbatim>\<open>1 == True\<close>,
  \<^verbatim>\<open>1 == 1.0\<close>), as the set difference of line 88 compares them.\<close>

fun py_eq_int :: "int \<Rightarrow> pyval \<Rightarrow> bool" where
  "py_eq_int n (PS (SInt m)) = (n = m)"
| "py_eq_int n (PS (SBool b)) = (n = (if b then 1 else 0))"
| "py_eq_int n (PS (SFloat x)) = (of_int n = x)"
| "py_eq_int n _ = False"

fun hashable :: "pyval \<Rightarrow> bool" where
  "hashable (PS _) = True"
| "hashable _ = False"

text \<open>\<^verbatim>\<open>[transcript['Value']['ContactID'] for transcript in transcripts]\<close>.\<close>

fun retrieved_ids :: "pyval list \<Rightarrow> error + pyval list" where
  "retrieved_ids [] = Inr []"
| "retrieved_ids (t # ts) =
     (case py_getitem t ''Value'' of
        Inl err \<Rightarrow> Inl err
      | Inr v \<Rightarrow>
          (case py_getitem v ''ContactID'' of
             Inl err \<Rightarrow> Inl err
           | Inr c \<Rightarrow>
               (case retrieved_ids ts of
                  Inl err \<Rightarrow> Inl err
                | Inr cs \<Rightarrow> Inr (c # cs))))"

text \<open>\<^verbatim>\<open>set(chunked_contact_ids) - set(retrieved)\<close>, the elements of the list that
  line 88 makes of it.\<close>

definition missing_ids :: "int list \<Rightarrow> pyval list \<Rightarrow> int set" where
  "missing_ids chunk retrieved = set (filter (\<lambda>c. \<not> list_ex (py_eq_int c) retrieved) chunk)"

text \<open>Lines 91 to 93: one artifact per pair of the \<^verbatim>\<open>zip\<close>.\<close>

fun save_transcripts :: "env \<Rightarrow> (int \<times> pyval) list \<Rightarrow> world \<Rightarrow> world" where
  "save_transcripts e [] w = w"
| "save_transcripts e ((contact_id, transcript) # rest) w =
     save_transcripts e rest (save_data e transcript (str_int contact_id @ ''_data.txt'') w)"

text \<open>The body of the loop of line 83, for one chunk: the outcome and the world it leaves.\<close>

definition download_chunk :: "env \<Rightarrow> int list \<Rightarrow> world \<Rightarrow> error option \<times> world" where
  "download_chunk e chunked_contact_ids w =
     (let transcripts = ice_get_recordings e (remote_calls w) chunked_contact_ids;
          w1 = w\<lparr>remote_calls := remote_calls w @ [GetRecordings chunked_contact_ids]\<rparr>
      in if length transcripts < length chunked_contact_ids
         then (case retrieved_ids transcripts of
                 Inl err \<Rightarrow> (Some err, w1)
               | Inr retrieved \<Rightarrow>
                   if list_all hashable retrieved
                   then (Some (Exception ''Transcripts not returned for all contact ids''),
                         log_add WARNING ''Missing transcripts %s''
                           (ArgIdSet (missing_ids chunked_contact_ids retrieved)) w1)
                   else (Some TypeError, w1))
         else (None, mark_downloaded chunked_contact_ids
                       (save_transcripts e (zip chunked_contact_ids transcripts) w1)))"

fun download_chunks :: "env \<Rightarrow> int list list \<Rightarrow> world \<Rightarrow> error option \<times> world" where
  "download_chunks e [] w = (None, w)"
| "download_chunks e (c # cs) w =
     (case download_chunk e c w of
        (Some err, w') \<Rightarrow> (Some err, w')
      | (None, w') \<Rightarrow> download_chunks e cs w')"

text \<open>
  Two observations on a run of the loop, not part of the module. \<open>first_short\<close> is the
  position of the first chunk whose answer is shorter than the chunk, counted along the
  calls the loop makes from the call history \<open>h\<close>; the number of chunks when no answer is
  short. \<open>chunk_files\<close> is what the files hold once each of the given chunks has been
  asked for from the history \<open>h\<close> onwards and every pair of an identifier and the
  transcript at its position has been written to the identifier's file.
\<close>

fun first_short :: "env \<Rightarrow> call list \<Rightarrow> int list list \<Rightarrow> nat" where
  "first_short e h [] = 0"
| "first_short e h (c # cs) =
     (if length (ice_get_recordings e h c) < length c then 0
      else Suc (first_short e (h @ [GetRecordings c]) cs))"

fun chunk_files ::
  "env \<Rightarrow> call list \<Rightarrow> int list list \<Rightarrow> (string \<times> pyval) list \<Rightarrow> (string \<times> pyval) list" where
  "chunk_files e h [] f = f"
| "chunk_files e h (c # cs) f =
     chunk_files e (h @ [GetRecordings c]) cs
       (fold (\<lambda>(n, t) f. dict_set f (str_int n @ ''_data.txt'') t)
             (zip c (ice_get_recordings e h c)) f)"

definition download_transcripts :: "env \<Rightarrow> int list option \<Rightarrow> world \<Rightarrow> error option \<times> world" where
  "download_transcripts e contact_ids_arg w =
     (let contact_ids = (case contact_ids_arg of None \<Rightarrow> pending_contact_ids w | Some ids \<Rightarrow> ids) in
      if contact_ids = []
      then (None, log_add WARNING ''No contact ids to parse. Exiting..'' NoArg w)
      else download_chunks e (chunker contact_ids 20)
             (log_add INFO ''Attempting to process %s contact ids'' (ArgNat (length contact_ids)) w))"

section \<open>The reconcilers\<close>

subsection \<open>Filename patterns\<close>

text \<open>
  The two patterns of the module use literals, \<^verbatim>\<open>.\<close>, \<^verbatim>\<open>\w\<close> and \<^verbatim>\<open>\d\<close> under
  \<^verbatim>\<open>*\<close> and \<^verbatim>\<open>{m,n}\<close>, in sequence after \<^verbatim>\<open>^\<close>. A pattern is the list of its
  items; it matches a string when some prefix of the string does, as \<^verbatim>\<open>re\<close> has it
  for a pattern anchored at the start only.

  The classes are modelled on ASCII characters, where \<^verbatim>\<open>\d\<close> is \<^verbatim>\<open>[0-9]\<close> and
  \<^verbatim>\<open>\w\<close> is \<^verbatim>\<open>[A-Za-z0-9_]\<close>. For a \<^verbatim>\<open>str\<close> pattern Python's classes also hold
  the letters and digits beyond ASCII, which the model has no table of: on a string with
  such a character \<open>re_match\<close> says nothing about the code, and the properties below are
  stated for ASCII names.
\<close>

datatype cclass = CChar char | CAny | CWord | CDigit

datatype quant = One | Star | Rep nat nat

type_synonym regex = "(cclass \<times> quant) list"

definition is_digit :: "char \<Rightarrow> bool" where
  "is_digit c = (48 \<le> (of_char c :: nat) \<and> (of_char c :: nat) \<le> 57)"

definition is_word :: "char \<Rightarrow> bool" where
  "is_word c =
     (is_digit c \<or> (65 \<le> (of_char c :: nat) \<and> (of_char c :: nat) \<le> 90)
      \<or> (97 \<le> (of_char c :: nat) \<and> (of_char c :: nat) \<le> 122) \<or> c = CHR ''_'')"

fun cc_match :: "cclass \<Rightarrow> char \<Rightarrow> bool" where
  "cc_match (CChar c) x = (x = c)"
| "cc_match CAny x = (x \<noteq> CHR 0x0A)"
| "cc_match CWord x = is_word x"
| "cc_match CDigit x = is_digit x"

fun re_match :: "regex \<Rightarrow> string \<Rightarrow> bool" where
  "re_match [] s = True"
| "re_match ((c, One) # p) s =
     (case s of [] \<Rightarrow> False | x # xs \<Rightarrow> cc_match c x \<and> re_match p xs)"
| "re_match ((c, Star) # p) s =
     (re_match p s \<or> (case s of [] \<Rightarrow> False | x # xs \<Rightarrow> cc_match c x \<and> re_match ((c, Star) # p) xs))"
| "re_match ((c, Rep 0 0) # p) s = re_match p s"
| "re_match ((c, Rep 0 (Suc n)) # p) s =
     (re_match p s \<or> (case s of [] \<Rightarrow> False | x # xs \<Rightarrow> cc_match c x \<and> re_match ((c, Rep 0 n) # p) xs))"
| "re_match ((c, Rep (Suc m) n) # p) s =
     (case s of [] \<Rightarrow> False | x # xs \<Rightarrow> cc_match c x \<and> re_match ((c, Rep m (n - 1)) # p) xs)"

text \<open>\<^verbatim>\<open>r"^\w*_\d{4}-\d{1,2}-\d{1,2}_\w*"\<close>\<close>

definition contacts_reg :: regex where
  "contacts_reg =
     [(CWord, Star), (CChar (CHR ''_''), One), (CDigit, Rep 4 4), (CChar (CHR ''-''), One),
      (CDigit, Rep 1 2), (CChar (CHR ''-''), One), (CDigit, Rep 1 2), (CChar (CHR ''_''), One),
      (CWord, Star)]"

text \<open>\<^verbatim>\<open>r"^\d*_data.txt"\<close>\<close>

definition transcripts_reg :: regex where
  "transcripts_reg =
     [(CDigit, Star), (CChar (CHR ''_''), One), (CChar (CHR ''d''), One), (CChar (CHR ''a''), One),
      (CChar (CHR ''t''), One), (CChar (CHR ''a''), One), (CAny, One), (CChar (CHR ''t''), One),
      (CChar (CHR ''x''), One), (CChar (CHR ''t''), One)]"

text \<open>
  Modelled from the spec: \<^verbatim>\<open>utils.search_path\<close> is not among the sources. The spec has
  the reconcilers "list on-disk files matching" the pattern; the caller takes the base
  name of each result, so the results are paths: the files of the directory whose name
  matches one of the patterns, each joined to the directory.
\<close>

definition search_path :: "string \<Rightarrow> regex list \<Rightarrow> world \<Rightarrow> string list" where
  "search_path path like w =
     map (os_path_join path) (filter (\<lambda>b. list_ex (\<lambda>r. re_match r b) like) (map fst (fs w)))"

subsection \<open>\<^verbatim>\<open>get_contacts_to_load\<close>\<close>

text \<open>\<^verbatim>\<open>SELECT load_file FROM contacts GROUP BY 1\<close>: the distinct values of the column.\<close>

definition loaded_files :: "world \<Rightarrow> scalar list" where
  "loaded_files w = remdups (map (column ''load_file'') (contacts_tbl w))"

text \<open>The result is \<^verbatim>\<open>list(set(filenames) - set(loaded_files))\<close>; the order of a
  Python set is not specified, the model keeps the order of the listing.\<close>

definition get_contacts_to_load :: "env \<Rightarrow> world \<Rightarrow> string list" where
  "get_contacts_to_load e w =
     (let files = search_path (ICESCAPE_OUTPUT_DIR e) [contacts_reg] w;
          filenames = map os_path_basename files
      in remdups (filter (\<lambda>f. SStr f \<notin> set (loaded_files w)) filenames))"

subsection \<open>\<^verbatim>\<open>get_transcripts_to_load\<close>\<close>

text \<open>\<^verbatim>\<open>s.split(sep)[0]\<close>: what stands before the first occurrence of \<open>sep\<close>, the
  whole string when there is none.\<close>

fun split_head :: "string \<Rightarrow> string \<Rightarrow> string" where
  "split_head sep [] = []"
| "split_head sep (c # cs) =
     (if take (length sep) (c # cs) = sep then [] else c # split_head sep cs)"

text \<open>
  \<^verbatim>\<open>int(s)\<close> on an ASCII string: white space around it is dropped (the characters 9
  to 13 and the space), a sign may lead, and the digits may be grouped by single
  underscores; anything else is a \<^verbatim>\<open>ValueError\<close>. Beyond ASCII \<^verbatim>\<open>int\<close> also reads
  the decimal digits and drops the white space of Unicode, which the model has no table of.
\<close>

definition is_space :: "char \<Rightarrow> bool" where
  "is_space c = ((9 \<le> (of_char c :: nat) \<and> (of_char c :: nat) \<le> 13) \<or> c = CHR '' '')"

definition strip :: "string \<Rightarrow> string" where
  "strip s = rev (dropWhile is_space (rev (dropWhile is_space s)))"

fun parse_digits :: "bool \<Rightarrow> nat \<Rightarrow> string \<Rightarrow> nat option" where
  "parse_digits after_digit acc [] = (if after_digit then Some acc else None)"
| "parse_digits after_digit acc (c # cs) =
     (if is_digit c then parse_digits True (acc * 10 + ((of_char c :: nat) - 48)) cs
      else if c = CHR ''_'' \<and> after_digit then parse_digits False acc cs
      else None)"

definition py_int :: "string \<Rightarrow> error + int" where
  "py_int s =
     (let t = strip s;
          negative = (t \<noteq> [] \<and> hd t = CHR ''-'');
          u = (if t \<noteq> [] \<and> (hd t = CHR ''-'' \<or> hd t = CHR ''+'') then tl t else t)
      in case parse_digits False 0 u of
           None \<Rightarrow> Inl ValueError
         | Some n \<Rightarrow> Inr (if negative then - int n else int n))"

text \<open>\<^verbatim>\<open>SELECT contact_id FROM transcripts GROUP BY 1\<close>\<close>

definition loaded_contacts :: "world \<Rightarrow> scalar list" where
  "loaded_contacts w = remdups (map (column ''contact_id'') (transcripts_tbl w))"

text \<open>The loop of lines 205 to 209.\<close>

fun transcripts_loop :: "scalar list \<Rightarrow> string list \<Rightarrow> error + string list" where
  "transcripts_loop loaded [] = Inr []"
| "transcripts_loop loaded (file # files) =
     (let basename = os_path_basename file in
      case py_int (split_head ''_data.txt'' basename) of
        Inl err \<Rightarrow> Inl err
      | Inr contact_id \<Rightarrow>
          (case transcripts_loop loaded files of
             Inl err \<Rightarrow> Inl err
           | Inr to_load \<Rightarrow>
               Inr (if list_ex (\<lambda>v. py_eq_int contact_id (PS v)) loaded then to_load
                    else basename # to_load)))"

definition get_transcripts_to_load :: "env \<Rightarrow> world \<Rightarrow> (error + string list) \<times> world" where
  "get_transcripts_to_load e w =
     (let files = search_path (ICESCAPE_OUTPUT_DIR e) [transcripts_reg] w;
          filenames = map os_path_basename files
      in case transcripts_loop (loaded_contacts w) filenames of
           Inl err \<Rightarrow> (Inl err, w)
         | Inr to_load \<Rightarrow>
             (Inr to_load,
              log_add INFO ''%s transcripts to parse and load'' (ArgNat (length to_load)) w))"

section \<open>The parsers\<close>

text \<open>\<^verbatim>\<open>[[d[key] for key in columns] for d in rows]\<close>: a row that lacks a column raises.\<close>

fun project_row :: "string list \<Rightarrow> row \<Rightarrow> error + scalar list" where
  "project_row [] d = Inr []"
| "project_row (key # keys) d =
     (case row_get d key of
        Inl err \<Rightarrow> Inl err
      | Inr v \<Rightarrow> (case project_row keys d of Inl err \<Rightarrow> Inl err | Inr vs \<Rightarrow> Inr (v # vs)))"

fun project_rows :: "string list \<Rightarrow> row list \<Rightarrow> error + scalar list list" where
  "project_rows columns [] = Inr []"
| "project_rows columns (d # ds) =
     (case project_row columns d of
        Inl err \<Rightarrow> Inl err
      | Inr vs \<Rightarrow> (case project_rows columns ds of Inl err \<Rightarrow> Inl err | Inr vss \<Rightarrow> Inr (vs # vss)))"

text \<open>Lines 126 to 129: the transform, then the three fields of the caller.\<close>

definition parse_contact :: "env \<Rightarrow> string \<Rightarrow> string \<Rightarrow> pyval \<Rightarrow> row" where
  "parse_contact e interaction_type base_file contact =
     (let contact_data = tf_contacts e contact;
          contact_data = dict_set contact_data ''interaction_type'' (SStr interaction_type);
          contact_data = dict_set contact_data ''transcript_downloaded'' (SBool False);
          contact_data = dict_set contact_data ''load_file'' (SStr base_file)
      in contact_data)"

definition parse_contacts_file :: "env \<Rightarrow> string \<Rightarrow> world \<Rightarrow> error option \<times> world" where
  "parse_contacts_file e filename w =
     (let w1 = log_add INFO ''Parsing contact file %s'' (ArgStr filename) w;
          base_file = os_path_basename filename;
          interaction_type = split_head ''_'' base_file
      in case read_jason e filename w1 of
           Inl err \<Rightarrow> (Some err, w1)
         | Inr contacts \<Rightarrow>
             if \<not> truthy contacts
             then (None, log_add WARNING ''Empty contacts file. Exiting..'' NoArg w1)
             else (case py_iter contacts of
                     Inl err \<Rightarrow> (Some err, w1)
                   | Inr cs \<Rightarrow>
                       (case map (parse_contact e interaction_type base_file) cs of
                          [] \<Rightarrow> (Some IndexError, w1)
                        | first # rest \<Rightarrow>
                            (let columns = map fst first in
                             case project_rows columns (first # rest) of
                               Inl err \<Rightarrow> (Some err, w1)
                             | Inr load_data \<Rightarrow> (None, postgrez_load Contacts load_data columns w1)))))"

text \<open>Lines 162 to 165: \<^verbatim>\<open>record.replace('|', '')\<close> on the strings of a row.\<close>

fun strip_pipe :: "scalar \<Rightarrow> scalar" where
  "strip_pipe (SStr s) = SStr (filter (\<lambda>c. c \<noteq> CHR ''|'') s)"
| "strip_pipe v = v"

definition parse_transcript :: "env \<Rightarrow> string \<Rightarrow> world \<Rightarrow> error option \<times> world" where
  "parse_transcript e filename w =
     (let w1 = log_add INFO ''Parsing transcript file %s'' (ArgStr filename) w in
      case read_jason e filename w1 of
        Inl err \<Rightarrow> (Some err, w1)
      | Inr transcript \<Rightarrow>
          (case tf_recording e transcript of
             [] \<Rightarrow> (Some IndexError, w1)
           | first # rest \<Rightarrow>
               (let columns = map fst first in
                case project_rows columns (first # rest) of
                  Inl err \<Rightarrow> (Some err, w1)
                | Inr load_data \<Rightarrow>
                    (None, postgrez_load Transcripts (map (map strip_pipe) load_data) columns w1))))"

section \<open>The enhancement stage\<close>

text \<open>\<^verbatim>\<open>SELECT * FROM transcripts WHERE contact_id IN (...) ORDER BY contact_id, dt ASC\<close>,
  as a data frame.\<close>

definition load_transcripts_df :: "env \<Rightarrow> int list \<Rightarrow> world \<Rightarrow> row list \<times> world" where
  "load_transcripts_df e contact_ids w =
     (order_by_dt e
        (filter (\<lambda>r. case column ''contact_id'' r of SInt n \<Rightarrow> n \<in> set contact_ids | _ \<Rightarrow> False)
                (transcripts_tbl w)),
      log_add INFO ''Loading transcripts for contact_ids: %s'' (ArgIds (map Some contact_ids)) w)"

definition load_enhanced_transcript :: "int \<Rightarrow> row \<Rightarrow> world \<Rightarrow> error option \<times> world" where
  "load_enhanced_transcript contact_id summary w =
     (let columns = map fst summary in
      case project_row columns summary of
        Inl err \<Rightarrow> (Some err, w)
      | Inr vals \<Rightarrow>
          (None, postgrez_load Enhanced [SInt contact_id # vals] (''contact_id'' # columns) w))"

text \<open>\<^verbatim>\<open>pd.isnull\<close> on a scalar.\<close>

fun pd_isnull :: "scalar \<Rightarrow> bool" where
  "pd_isnull SNone = True"
| "pd_isnull SNaN = True"
| "pd_isnull _ = False"

text \<open>The loop of lines 258 to 260 over the items of the dictionary it updates.\<close>

fun replace_nans_loop :: "(string \<times> scalar) list \<Rightarrow> row \<Rightarrow> row" where
  "replace_nans_loop [] summary = summary"
| "replace_nans_loop ((key, v) # items) summary =
     replace_nans_loop items (if pd_isnull v then dict_set summary key SNone else summary)"

definition replace_nans :: "row \<Rightarrow> row" where
  "replace_nans summary = replace_nans_loop summary summary"

text \<open>
  \<^verbatim>\<open>SELECT contact_id FROM transcripts WHERE contact_id NOT IN (SELECT contact_id FROM
  enhanced_transcripts) GROUP BY 1\<close>, with \<open>None\<close> for NULL. Under SQL's three-valued
  logic \<^verbatim>\<open>NOT IN\<close> holds of every value, NULL included, when the enhanced relation is
  empty; otherwise it holds of no NULL, and of an identifier when the enhanced
  identifiers hold neither it nor a NULL.
\<close>

definition to_enhance :: "world \<Rightarrow> int option list" where
  "to_enhance w =
     (let done = map (column ''contact_id'') (enhanced_tbl w) in
      remdups (concat (map (\<lambda>r. case column ''contact_id'' r of
                                     SInt n \<Rightarrow> (if SNone \<in> set done \<or> SInt n \<in> set done then []
                                                else [Some n])
                                   | SNone \<Rightarrow> (if done = [] then [None] else [])
                                   | _ \<Rightarrow> [])
                            (transcripts_tbl w))))"

text \<open>
  One delayed chain of lines 285 to 289. \<^verbatim>\<open>compute\<close> runs the chains on a pool of
  threads; the model runs them one after the other, in the order of \<open>to_load\<close>. The
  chain of a NULL identifier logs the line of \<^verbatim>\<open>load_transcripts_df\<close> and sends a query
  with \<^verbatim>\<open>IN (None)\<close>, which Postgres rejects.
\<close>

definition enhance_one :: "env \<Rightarrow> int \<Rightarrow> world \<Rightarrow> error option \<times> world" where
  "enhance_one e contact_id w =
     (let (dataframe, w1) = load_transcripts_df e [contact_id] w;
          dataframe = tf_transcripts e dataframe;
          summary = tf_transcript_summary e dataframe;
          summary = replace_nans summary
      in load_enhanced_transcript contact_id summary w1)"

fun enhance_all :: "env \<Rightarrow> int option list \<Rightarrow> world \<Rightarrow> error option \<times> world" where
  "enhance_all e [] w = (None, w)"
| "enhance_all e (None # rest) w =
     (Some StorageError, log_add INFO ''Loading transcripts for contact_ids: %s'' (ArgIds [None]) w)"
| "enhance_all e (Some contact_id # rest) w =
     (case enhance_one e contact_id w of
        (Some err, w') \<Rightarrow> (Some err, w')
      | (None, w') \<Rightarrow> enhance_all e rest w')"

definition enhanced_transcripts :: "env \<Rightarrow> world \<Rightarrow> error option \<times> world" where
  "enhanced_transcripts e w =
     (let to_load = to_enhance w;
          w1 = fold (\<lambda>contact_id. log_add INFO ''Processing transcript for contact_id %s''
                                    (ArgId contact_id)) to_load w
      in enhance_all e to_load w1)"

section \<open>\<^verbatim>\<open>download_contacts\<close>\<close>

subsection \<open>Dates\<close>

text \<open>
  A day is its number in the proleptic Gregorian calendar, counted from 0 for
  0001-01-01 (Python's \<^verbatim>\<open>toordinal()\<close> less one). A \<^verbatim>\<open>datetime\<close> is the number of
  microseconds since the midnight that starts day 0, a \<^verbatim>\<open>timedelta\<close> a number of
  microseconds, so that their sum is exact, as Python's is. Python's datetimes run from
  that midnight to the last microsecond of 9999-12-31, which is day 3652058; a sum
  that leaves this range raises \<^verbatim>\<open>OverflowError\<close>. A date handed to the module and the
  clock's \<open>today\<close> are days of that range.
\<close>

type_synonym datetime = int

definition us_per_day :: int where
  "us_per_day = 86400000000"

definition datetime_max :: datetime where
  "datetime_max = 3652059 * us_per_day - 1"

definition datetime_add :: "datetime \<Rightarrow> int \<Rightarrow> error + datetime" where
  "datetime_add t delta =
     (if t + delta < 0 \<or> datetime_max < t + delta then Inl OverflowError else Inr (t + delta))"

definition timedelta_days :: "int \<Rightarrow> int" where
  "timedelta_days n = n * us_per_day"

definition timedelta_milliseconds :: "int \<Rightarrow> int" where
  "timedelta_milliseconds n = n * 1000"

definition is_leap :: "nat \<Rightarrow> bool" where
  "is_leap y = (y mod 4 = 0 \<and> (y mod 100 \<noteq> 0 \<or> y mod 400 = 0))"

definition days_in_year :: "nat \<Rightarrow> nat" where
  "days_in_year y = (if is_leap y then 366 else 365)"

definition days_in_month :: "nat \<Rightarrow> nat \<Rightarrow> nat" where
  "days_in_month y m =
     (if m = 2 then (if is_leap y then 29 else 28)
      else if m = 4 \<or> m = 6 \<or> m = 9 \<or> m = 11 then 30 else 31)"

text \<open>The year of the \<open>n\<close>-th day counted from the first of January of year \<open>y\<close>, and
  the day's place in that year; likewise for the month within a year.\<close>

function year_of :: "nat \<Rightarrow> nat \<Rightarrow> nat \<times> nat" where
  "year_of y n = (if n < days_in_year y then (y, n) else year_of (Suc y) (n - days_in_year y))"
  by pat_completeness auto
termination
  by (relation "measure snd") (auto simp: days_in_year_def)

declare year_of.simps [simp del]

function month_of :: "nat \<Rightarrow> nat \<Rightarrow> nat \<Rightarrow> nat \<times> nat" where
  "month_of y m n =
     (if n < days_in_month y m then (m, n) else month_of y (Suc m) (n - days_in_month y m))"
  by pat_completeness auto
termination
  by (relation "measure (\<lambda>(y, m, n). n)") (auto simp: days_in_month_def)

declare month_of.simps [simp del]

definition ymd :: "nat \<Rightarrow> nat \<times> nat \<times> nat" where
  "ymd day = (let (y, r) = year_of 1 day; (m, d) = month_of y 1 r in (y, m, Suc d))"

definition zfill :: "nat \<Rightarrow> string \<Rightarrow> string" where
  "zfill width s = replicate (width - length s) (CHR ''0'') @ s"

text \<open>\<^verbatim>\<open>strftime("%Y-%m-%d")\<close> and \<^verbatim>\<open>strftime('%Y-%m-%dT%H:%M:%S.%f')\<close>. The year
  is written by the C library's \<^verbatim>\<open>%Y\<close>, which on Linux pads nothing: a year has its
  four digits from 1000 on and fewer before.\<close>

definition fmt_date :: "nat \<Rightarrow> string" where
  "fmt_date day =
     (let (y, m, d) = ymd day
      in str_nat y @ ''-'' @ zfill 2 (str_nat m) @ ''-'' @ zfill 2 (str_nat d))"

definition strftime_dt :: "datetime \<Rightarrow> string" where
  "strftime_dt t = fmt_date (nat (t div us_per_day))"

definition strftime_tm :: "datetime \<Rightarrow> string" where
  "strftime_tm t =
     (let us = nat (t mod us_per_day);
          secs = us div 1000000
      in fmt_date (nat (t div us_per_day)) @ ''T'' @
         zfill 2 (str_nat (secs div 3600)) @ '':'' @
         zfill 2 (str_nat (secs div 60 mod 60)) @ '':'' @
         zfill 2 (str_nat (secs mod 60)) @ ''.'' @
         zfill 6 (str_nat (us mod 1000000)))"

text \<open>
  Modelled from the spec: \<^verbatim>\<open>utils.generate_date_range\<close> is not among the sources. The
  spec has the range "split into whole-day windows", one call per day: the midnight of
  each day from the start date to the end date, both included. The model takes the two
  dates parsed, as day numbers.
\<close>

definition generate_date_range :: "nat \<Rightarrow> nat \<Rightarrow> datetime list" where
  "generate_date_range start_date end_date =
     map (\<lambda>day. timedelta_days (int day)) [start_date..<Suc end_date]"

subsection \<open>The download\<close>

text \<open>The body of the loop of line 44. Line 45 is two sums, the first of which leaves the
  range of datetimes when \<open>start_dt\<close> is on 9999-12-31.\<close>

definition download_day :: "env \<Rightarrow> string \<Rightarrow> datetime \<Rightarrow> world \<Rightarrow> error option \<times> world" where
  "download_day e interaction_type start_dt w =
     (case datetime_add start_dt (timedelta_days 1) of
        Inl err \<Rightarrow> (Some err, w)
      | Inr next_dt \<Rightarrow>
          (case datetime_add next_dt (- timedelta_milliseconds 1) of
             Inl err \<Rightarrow> (Some err, w)
           | Inr end_dt \<Rightarrow>
               (let window = Some (strftime_tm start_dt, strftime_tm end_dt);
                    contact_data = ice_get_contacts e (remote_calls w) interaction_type window;
                    w1 = w\<lparr>remote_calls := remote_calls w @ [GetContacts interaction_type window]\<rparr>;
                    filename = interaction_type @ ''_'' @ strftime_dt start_dt @ ''_contacts.txt''
                in (None, save_data e contact_data filename w1))))"

fun download_days :: "env \<Rightarrow> string \<Rightarrow> datetime list \<Rightarrow> world \<Rightarrow> error option \<times> world" where
  "download_days e interaction_type [] w = (None, w)"
| "download_days e interaction_type (start_dt # rest) w =
     (case download_day e interaction_type start_dt w of
        (Some err, w') \<Rightarrow> (Some err, w')
      | (None, w') \<Rightarrow> download_days e interaction_type rest w')"

text \<open>
  A date argument is \<open>None\<close> for Python's \<^verbatim>\<open>None\<close> and a day number otherwise. In
  the branch of line 53 the service is called before \<^verbatim>\<open>datetime.now() - timedelta(1)\<close>
  is computed; that difference is a datetime unless today is day 0, and only its date is
  used, so the model takes it from the midnight of today.
\<close>

definition download_contacts ::
  "env \<Rightarrow> string \<Rightarrow> nat option \<Rightarrow> nat option \<Rightarrow> world \<Rightarrow> error option \<times> world" where
  "download_contacts e interaction_type start_date end_date w =
     (case (start_date, end_date) of
        (Some s, Some t) \<Rightarrow> download_days e interaction_type (generate_date_range s t) w
      | _ \<Rightarrow>
         (let contact_data = ice_get_contacts e (remote_calls w) interaction_type None;
              w1 = w\<lparr>remote_calls := remote_calls w @ [GetContacts interaction_type None]\<rparr>
          in case datetime_add (timedelta_days (int (today e))) (- timedelta_days 1) of
               Inl err \<Rightarrow> (Some err, w1)
             | Inr start_dt \<Rightarrow>
                 (let filename = interaction_type @ ''_'' @ strftime_dt start_dt @ ''_contacts.txt''
                  in (None, save_data e contact_data filename w1))))"

section \<open>\<^verbatim>\<open>main\<close>\<close>

text \<open>
  The pipeline, stage by stage; an exception of a stage ends the run with the world as the
  stage left it. \<^verbatim>\<open>config.init_logging()\<close> and \<^verbatim>\<open>config.log_ascii()\<close> only set the
  logging up and are left out. The date arguments are as in \<^verbatim>\<open>download_contacts\<close>.
  With no date given, line 307 takes a day from \<^verbatim>\<open>datetime.today()\<close>, which raises
  when today is day 0; otherwise both dates are yesterday, the day before \<open>today\<close>.
\<close>

fun parse_contacts_files :: "env \<Rightarrow> string list \<Rightarrow> world \<Rightarrow> error option \<times> world" where
  "parse_contacts_files e [] w = (None, w)"
| "parse_contacts_files e (contact_file # rest) w =
     (case parse_contacts_file e (os_path_join (ICESCAPE_OUTPUT_DIR e) contact_file) w of
        (Some err, w') \<Rightarrow> (Some err, w')
      | (None, w') \<Rightarrow> parse_contacts_files e rest w')"

fun parse_transcripts :: "env \<Rightarrow> string list \<Rightarrow> world \<Rightarrow> error option \<times> world" where
  "parse_transcripts e [] w = (None, w)"
| "parse_transcripts e (transcript_file # rest) w =
     (case parse_transcript e (os_path_join (ICESCAPE_OUTPUT_DIR e) transcript_file) w of
        (Some err, w') \<Rightarrow> (Some err, w')
      | (None, w') \<Rightarrow> parse_transcripts e rest w')"

text \<open>Lines 327 to 337: what \<^verbatim>\<open>main\<close> runs for \<^verbatim>\<open>'IM'\<close> only.\<close>

definition transcript_stages :: "env \<Rightarrow> world \<Rightarrow> error option \<times> world" where
  "transcript_stages e w =
     (case download_transcripts e None w of
        (Some err, w1) \<Rightarrow> (Some err, w1)
      | (None, w1) \<Rightarrow>
          (case get_transcripts_to_load e w1 of
             (Inl err, w2) \<Rightarrow> (Some err, w2)
           | (Inr transcripts_to_load, w2) \<Rightarrow>
               (case parse_transcripts e transcripts_to_load w2 of
                  (Some err, w3) \<Rightarrow> (Some err, w3)
                | (None, w3) \<Rightarrow> enhanced_transcripts e w3)))"

definition main :: "env \<Rightarrow> string \<Rightarrow> nat option \<Rightarrow> nat option \<Rightarrow> world \<Rightarrow> error option \<times> world" where
  "main e interaction_type start_date_arg end_date_arg w =
     (if start_date_arg = None \<and> end_date_arg = None \<and> today e = 0 then (Some OverflowError, w)
      else
       (let yesterday = today e - 1;
            (start_date, end_date) =
              (if start_date_arg = None \<and> end_date_arg = None then (Some yesterday, Some yesterday)
               else (start_date_arg, end_date_arg))
        in if start_date = None \<or> end_date = None
           then (None, log_add WARNING ''Provide both start_date and end_date. Exiting..'' NoArg w)
           else (case download_contacts e interaction_type start_date end_date w of
                   (Some err, w1) \<Rightarrow> (Some err, w1)
                 | (None, w1) \<Rightarrow>
                     (let contacts_to_load = get_contacts_to_load e w1
                      in case parse_contacts_files e contacts_to_load w1 of
                           (Some err, w2) \<Rightarrow> (Some err, w2)
                         | (None, w2) \<Rightarrow>
                             if interaction_type \<noteq> ''IM'' then (None, w2)
                             else transcript_stages e w2))))"

section \<open>Auxiliary notions for the proofs\<close>

text \<open>The days before the first of January of a year (counted from a year 0 that the
  calendar does not use), the number a string of digits writes, and the call and the
  file name that the loop of \<^verbatim>\<open>download_contacts\<close> builds for one day.\<close>

definition days_before_year :: "nat \<Rightarrow> nat" where
  "days_before_year y = (\<Sum>k<y. days_in_year k)"

definition digits_val :: "string \<Rightarrow> nat" where
  "digits_val s = foldl (\<lambda>acc c. acc * 10 + ((of_char c :: nat) - 48)) 0 s"

definition day_call :: "string \<Rightarrow> nat \<Rightarrow> call" where
  "day_call interaction_type d =
     GetContacts interaction_type
       (Some (fmt_date d @ ''T00:00:00.000000'', fmt_date d @ ''T23:59:59.999000''))"

definition day_file :: "string \<Rightarrow> nat \<Rightarrow> string" where
  "day_file interaction_type d = interaction_type @ ''_'' @ fmt_date d @ ''_contacts.txt''"

text \<open>The days of 1000-01-01 and of 9999-12-31, the path that \<^verbatim>\<open>save_data\<close> gives an
  artifact, what the loop of \<^verbatim>\<open>download_contacts\<close> does for a day before the last
  one, and the strings made of ASCII characters only.\<close>

definition day_1000_01_01 :: nat where
  "day_1000_01_01 = 364877"

definition day_9999_12_31 :: nat where
  "day_9999_12_31 = 3652058"

definition artifact_path :: "env \<Rightarrow> string \<Rightarrow> string" where
  "artifact_path e filename = os_path_join (ICESCAPE_OUTPUT_DIR e) filename"

definition day_step :: "env \<Rightarrow> string \<Rightarrow> nat \<Rightarrow> world \<Rightarrow> world" where
  "day_step e interaction_type d w =
     save_data e
       (ice_get_contacts e (remote_calls w) interaction_type
          (Some (fmt_date d @ ''T00:00:00.000000'', fmt_date d @ ''T23:59:59.999000'')))
       (day_file interaction_type d)
       (w\<lparr>remote_calls := remote_calls w @ [day_call interaction_type d]\<rparr>)"

definition is_ascii :: "string \<Rightarrow> bool" where
  "is_ascii s = list_all (\<lambda>c. (of_char c :: nat) < 128) s"

section \<open>Example worlds\<close>

text \<open>Concrete collaborators and worlds, for the instances the theorems are checked on.\<close>

fun ex_field :: "pyval \<Rightarrow> string \<Rightarrow> scalar" where
  "ex_field (PDict d) k = (case map_of d k of Some (PS v) \<Rightarrow> v | _ \<Rightarrow> SNone)"
| "ex_field _ k = SNone"

fun ex_sub :: "pyval \<Rightarrow> string \<Rightarrow> pyval" where
  "ex_sub (PDict d) k = (case map_of d k of Some v \<Rightarrow> v | None \<Rightarrow> PS SNone)"
| "ex_sub _ k = PS SNone"

fun ex_items :: "pyval \<Rightarrow> string \<Rightarrow> pyval list" where
  "ex_items (PDict d) k = (case map_of d k of Some (PList xs) \<Rightarrow> xs | _ \<Rightarrow> [])"
| "ex_items _ k = []"

definition ex_contact :: "int \<Rightarrow> pyval" where
  "ex_contact n = PDict [(''ContactID'', PS (SInt n)), (''AgentID'', PS (SInt 7))]"

definition ex_transcript :: "int \<Rightarrow> pyval" where
  "ex_transcript n =
     PDict [(''Value'', PDict [(''ContactID'', PS (SInt n))]),
            (''Messages'', PList [PDict [(''Text'', PS (SStr ''a|b''))]])]"

definition ex_empty_transcript :: "int \<Rightarrow> pyval" where
  "ex_empty_transcript n =
     PDict [(''Value'', PDict [(''ContactID'', PS (SInt n))]), (''Messages'', PList [])]"

definition ex_contact_row :: "int \<Rightarrow> row" where
  "ex_contact_row n =
     [(''contact_id'', SInt n), (''agent_id'', SInt 7), (''transcript_downloaded'', SBool False)]"

definition ex_ids :: "int list" where
  "ex_ids = [1, 2, 3, 4, 5, 6, 7, 8, 9, 10, 11, 12, 13, 14, 15, 16, 17, 18, 19, 20, 21]"

definition ex_world :: world where
  "ex_world = \<lparr>fs = [], contacts_tbl = [ex_contact_row 1, ex_contact_row 21], transcripts_tbl = [],
     enhanced_tbl = [], remote_calls = [], store_calls = [], log_out = []\<rparr>"

definition ex_disk :: world where
  "ex_disk = \<lparr>fs = [(''IM_2018-01-31_contacts.txt'', PList [ex_contact 1, ex_contact 2]),
                    (''7_data.txt'', ex_transcript 7),
                    (''8_data.txt'', ex_empty_transcript 8),
                    (''Voice_2018-01-31_contacts.txt'', PList [])],
     contacts_tbl = [], transcripts_tbl = [[(''contact_id'', SInt 8)]],
     enhanced_tbl = [], remote_calls = [], store_calls = [], log_out = []\<rparr>"

definition ex_env :: env where
  "ex_env = \<lparr>ICESCAPE_OUTPUT_DIR = ''/data'',
     ice_get_contacts = (\<lambda>h t win. PList []),
     ice_get_recordings = (\<lambda>h ids. if h = [] then map ex_transcript ids else map ex_transcript (tl ids)),
     tf_contacts = (\<lambda>c. [(''contact_id'', ex_field c ''ContactID''), (''agent_id'', ex_field c ''AgentID'')]),
     tf_recording = (\<lambda>t. map (\<lambda>m. [(''contact_id'', ex_field (ex_sub t ''Value'') ''ContactID''),
                                     (''message'', ex_field m ''Text'')])
                             (ex_items t ''Messages'')),
     tf_transcripts = (\<lambda>rows. rows),
     tf_transcript_summary = (\<lambda>rows. [(''messages'', SInt (int (length rows))),
                                       (''mean_delay'', SNaN), (''first_message'', SStr ''a|b'')]),
     order_by_dt = (\<lambda>rows. rows),
     today = 736725\<rparr>"

definition silent_env :: env where
  "silent_env = ex_env\<lparr>ice_get_recordings := (\<lambda>h ids. [])\<rparr>"

definition ex_bad_disk :: world where
  "ex_bad_disk = ex_disk\<lparr>fs := fs ex_disk @ [(''_data.txt'', PList [])]\<rparr>"

definition shadowing_env :: env where
  "shadowing_env =
     ex_env\<lparr>tf_contacts := (\<lambda>c. [(''load_file'', SStr ''upstream''),
                                      (''contact_id'', ex_field c ''ContactID'')])\<rparr>"

definition reversing_env :: env where
  "reversing_env = ex_env\<lparr>ice_get_recordings := (\<lambda>h ids. rev (map ex_transcript ids))\<rparr>"

section \<open>Properties of \<^verbatim>\<open>download_transcripts\<close>\<close>

subsection \<open>Chunks\<close>

lemma chunker_Nil: "chunker [] n = []"
  by (simp add: chunker.simps)

lemma chunker_zero: "chunker xs 0 = []"
  by (simp add: chunker.simps)

lemma chunker_step: "xs \<noteq> [] \<Longrightarrow> 0 < n \<Longrightarrow> chunker xs n = take n xs # chunker (drop n xs) n"
  by (subst chunker.simps) simp

lemma concat_chunker: "0 < n \<Longrightarrow> concat (chunker xs n) = xs"
proof (induction xs n rule: chunker.induct)
  case (1 xs n)
  then show ?case by (cases "xs = []") (simp_all add: chunker_Nil chunker_step)
qed

lemma chunker_sizes: "c \<in> set (chunker xs n) \<Longrightarrow> c \<noteq> [] \<and> length c \<le> n"
proof (induction xs n rule: chunker.induct)
  case (1 xs n)
  show ?case
  proof (cases "xs = [] \<or> n = 0")
    case True
    with "1.prems" show ?thesis by (auto simp: chunker_Nil chunker_zero)
  next
    case False
    with "1.prems" have "c = take n xs \<or> c \<in> set (chunker (drop n xs) n)"
      by (simp add: chunker_step)
    with False "1.IH" show ?thesis by auto
  qed
qed

lemma chunker_full: "Suc j < length (chunker xs n) \<Longrightarrow> length (chunker xs n ! j) = n"
proof (induction xs n arbitrary: j rule: chunker.induct)
  case (1 xs n)
  show ?case
  proof (cases "xs = [] \<or> n = 0")
    case True
    with "1.prems" show ?thesis by (auto simp: chunker_Nil chunker_zero)
  next
    case False
    then have step: "chunker xs n = take n xs # chunker (drop n xs) n" by (simp add: chunker_step)
    show ?thesis
    proof (cases j)
      case 0
      from "1.prems" step have "chunker (drop n xs) n \<noteq> []" by auto
      then have "drop n xs \<noteq> []" by (auto simp: chunker_Nil)
      then have "n < length xs" by simp
      with 0 step show ?thesis by simp
    next
      case (Suc j')
      with "1.prems" step have "Suc j' < length (chunker (drop n xs) n)" by simp
      from "1.IH" [OF False this] Suc step show ?thesis by simp
    qed
  qed
qed

lemma ceil_div_step: "0 < n \<Longrightarrow> n \<le> (m::nat) \<Longrightarrow> (m + n - 1) div n = Suc ((m - n + n - 1) div n)"
proof -
  assume n: "0 < n" and le: "n \<le> m"
  have a: "m + n - 1 = (m - 1) + n" using n le by arith
  have b: "((m - 1) + n) div n = Suc ((m - 1) div n)" using n by simp
  have c: "m - n + n - 1 = m - 1" using le by arith
  show ?thesis unfolding a b c ..
qed

lemma ceil_div_small: "0 < m \<Longrightarrow> m < n \<Longrightarrow> (m + n - 1) div n = (1::nat)"
  by (rule div_nat_eqI) auto

lemma length_chunker: "0 < n \<Longrightarrow> length (chunker xs n) = (length xs + n - 1) div n"
proof (induction xs n rule: chunker.induct)
  case (1 xs n)
  show ?case
  proof (cases "xs = []")
    case True
    with "1.prems" show ?thesis by (simp add: chunker_Nil)
  next
    case False
    with "1.prems" have IH: "length (chunker (drop n xs) n) = (length (drop n xs) + n - 1) div n"
      by (intro "1.IH") auto
    have step: "length (chunker xs n) = Suc (length (chunker (drop n xs) n))"
      using False "1.prems" by (simp add: chunker_step)
    show ?thesis
    proof (cases "n \<le> length xs")
      case True
      have "length (drop n xs) = length xs - n" by simp
      with IH have "length (chunker (drop n xs) n) = (length xs - n + n - 1) div n" by (simp only:)
      with step ceil_div_step [OF "1.prems" True] show ?thesis by (simp only:)
    next
      case F2: False
      then have "drop n xs = []" by simp
      then have "length (chunker xs n) = 1" using step by (simp add: chunker_Nil)
      moreover have "(length xs + n - 1) div n = 1"
        using False F2 by (intro ceil_div_small) auto
      ultimately show ?thesis by (simp only:)
    qed
  qed
qed

subsection \<open>Paths and file names\<close>

lemma of_char_digit_char: "d < 10 \<Longrightarrow> (of_char (digit_char d) :: nat) = 48 + d"
  by (simp add: digit_char_def)

lemma is_digit_digit_char: "d < 10 \<Longrightarrow> is_digit (digit_char d)"
  by (simp add: is_digit_def of_char_digit_char)

lemma str_nat_digits: "c \<in> set (str_nat n) \<Longrightarrow> is_digit c"
proof (induction n rule: str_nat.induct)
  case (1 n)
  show ?case
  proof (cases "n < 10")
    case True
    with "1.prems" show ?thesis by (simp add: str_nat.simps [of n] is_digit_digit_char)
  next
    case False
    with "1.prems" have "c \<in> set (str_nat (n div 10)) \<or> c = digit_char (n mod 10)"
      by (auto simp: str_nat.simps [of n])
    with "1.IH" False show ?thesis by (auto simp: is_digit_digit_char)
  qed
qed

lemma not_digit_dash: "\<not> is_digit (CHR ''-'')" and not_digit_slash: "\<not> is_digit (CHR ''/'')"
  by (simp_all add: is_digit_def)

lemma basename_plain: "CHR ''/'' \<notin> set f \<Longrightarrow> os_path_basename f = f"
proof -
  assume "CHR ''/'' \<notin> set f"
  then have "\<forall>c \<in> set (rev f). c \<noteq> CHR ''/''" by auto
  then have "takeWhile (\<lambda>c. c \<noteq> CHR ''/'') (rev f) = rev f"
    by (simp only: takeWhile_eq_all_conv)
  then show ?thesis by (simp only: os_path_basename_def rev_rev_ident)
qed

lemma basename_after_slash:
  "CHR ''/'' \<notin> set f \<Longrightarrow> os_path_basename (p @ CHR ''/'' # f) = f"
proof -
  assume "CHR ''/'' \<notin> set f"
  then have all: "\<forall>c \<in> set (rev f). c \<noteq> CHR ''/''" by auto
  have r: "rev (p @ CHR ''/'' # f) = rev f @ (CHR ''/'' # rev p)" by simp
  have "takeWhile (\<lambda>c. c \<noteq> CHR ''/'') (rev f @ (CHR ''/'' # rev p)) =
          rev f @ takeWhile (\<lambda>c. c \<noteq> CHR ''/'') (CHR ''/'' # rev p)"
    using all by (intro takeWhile_append2) blast
  then have "takeWhile (\<lambda>c. c \<noteq> CHR ''/'') (rev (p @ CHR ''/'' # f)) = rev f"
    by (simp only: r takeWhile.simps) simp
  then show ?thesis by (simp only: os_path_basename_def rev_rev_ident)
qed

lemma basename_join: "CHR ''/'' \<notin> set f \<Longrightarrow> os_path_basename (os_path_join d f) = f"
proof -
  assume f: "CHR ''/'' \<notin> set f"
  then have hd: "\<not> (f \<noteq> [] \<and> hd f = CHR ''/'')" by (cases f) auto
  show ?thesis
  proof (cases "d = []")
    case True
    with hd f show ?thesis by (simp add: os_path_join_def basename_plain)
  next
    case False
    show ?thesis
    proof (cases "last d = CHR ''/''")
      case True
      with False have e: "d @ f = butlast d @ CHR ''/'' # f"
        by (metis append_butlast_last_id append_Cons append_Nil append_assoc)
      have "os_path_basename (d @ f) = f"
        unfolding e by (rule basename_after_slash [OF f])
      moreover from True False hd have "os_path_join d f = d @ f"
        by (simp add: os_path_join_def)
      ultimately show ?thesis by (simp only:)
    next
      case F: False
      with False hd f show ?thesis
        by (simp add: os_path_join_def basename_after_slash basename_plain)
    qed
  qed
qed

lemma map_of_dict_set: "map_of (dict_set d k v) = (map_of d)(k \<mapsto> v)"
  by (induction d) (auto simp: fun_eq_iff)

lemma save_data_fs:
  "CHR ''/'' \<notin> set f \<Longrightarrow> fs (save_data e d f w) = dict_set (fs w) f d"
  by (simp add: save_data_def write_jason_def Let_def basename_join)

lemma slash_notin_str_int: "CHR ''/'' \<notin> set (str_int i)"
proof -
  have "CHR ''/'' \<notin> set (str_nat n)" for n
    using str_nat_digits not_digit_slash by blast
  then show ?thesis by (simp add: str_int_def)
qed

subsection \<open>What a step leaves alone\<close>

lemma save_data_frame [simp]:
  "contacts_tbl (save_data e d f w) = contacts_tbl w"
  "transcripts_tbl (save_data e d f w) = transcripts_tbl w"
  "enhanced_tbl (save_data e d f w) = enhanced_tbl w"
  "remote_calls (save_data e d f w) = remote_calls w"
  "log_out (save_data e d f w) = log_out w"
  "store_calls (save_data e d f w) = store_calls w @ [WriteJason (artifact_path e f)]"
  by (simp_all add: save_data_def write_jason_def Let_def artifact_path_def)

lemma save_transcripts_frame [simp]:
  "contacts_tbl (save_transcripts e ps w) = contacts_tbl w"
  "transcripts_tbl (save_transcripts e ps w) = transcripts_tbl w"
  "enhanced_tbl (save_transcripts e ps w) = enhanced_tbl w"
  "remote_calls (save_transcripts e ps w) = remote_calls w"
  "log_out (save_transcripts e ps w) = log_out w"
  by (induction e ps w rule: save_transcripts.induct) simp_all

lemma save_transcripts_calls:
  "store_calls (save_transcripts e ps w) =
     store_calls w @ map (\<lambda>n. WriteJason (artifact_path e (str_int n @ ''_data.txt''))) (map fst ps)"
  by (induction e ps w rule: save_transcripts.induct) simp_all

lemma save_transcripts_fs:
  "fs (save_transcripts e ps w) =
     fold (\<lambda>(n, t) f. dict_set f (str_int n @ ''_data.txt'') t) ps (fs w)"
proof (induction ps arbitrary: w)
  case Nil
  show ?case by simp
next
  case (Cons p ps)
  obtain n t where p: "p = (n, t)" by (cases p)
  have "CHR ''/'' \<notin> set (str_int n @ ''_data.txt'')" by (simp add: slash_notin_str_int)
  then show ?case by (simp add: p Cons.IH save_data_fs)
qed

lemma log_add_frame [simp]:
  "contacts_tbl (log_add l m a w) = contacts_tbl w"
  "transcripts_tbl (log_add l m a w) = transcripts_tbl w"
  "enhanced_tbl (log_add l m a w) = enhanced_tbl w"
  "remote_calls (log_add l m a w) = remote_calls w"
  "store_calls (log_add l m a w) = store_calls w"
  "fs (log_add l m a w) = fs w"
  "log_out (log_add l m a w) = log_out w @ [(l, m, a)]"
  by (simp_all add: log_add_def)

lemma mark_downloaded_frame [simp]:
  "contacts_tbl (mark_downloaded ids w) = mark_rows ids (contacts_tbl w)"
  "transcripts_tbl (mark_downloaded ids w) = transcripts_tbl w"
  "enhanced_tbl (mark_downloaded ids w) = enhanced_tbl w"
  "remote_calls (mark_downloaded ids w) = remote_calls w"
  "store_calls (mark_downloaded ids w) = store_calls w @ [ExecuteUpdate ids]"
  "fs (mark_downloaded ids w) = fs w"
  "log_out (mark_downloaded ids w) = log_out w"
  by (simp_all add: mark_downloaded_def)

lemma download_chunk_calls:
  "remote_calls (snd (download_chunk e c w)) = remote_calls w @ [GetRecordings c]"
  by (simp add: download_chunk_def Let_def split: sum.splits)

lemma download_chunk_short:
  assumes "length (ice_get_recordings e (remote_calls w) c) < length c"
  shows "fst (download_chunk e c w) \<noteq> None"
    and "contacts_tbl (snd (download_chunk e c w)) = contacts_tbl w"
    and "fs (snd (download_chunk e c w)) = fs w"
    and "store_calls (snd (download_chunk e c w)) = store_calls w"
  using assms by (simp_all add: download_chunk_def Let_def split: sum.splits)

lemma download_chunk_complete:
  assumes "\<not> length (ice_get_recordings e (remote_calls w) c) < length c"
  shows "fst (download_chunk e c w) = None"
    and "contacts_tbl (snd (download_chunk e c w)) = mark_rows c (contacts_tbl w)"
    and "log_out (snd (download_chunk e c w)) = log_out w"
    and "fs (snd (download_chunk e c w)) =
           fold (\<lambda>(n, t) f. dict_set f (str_int n @ ''_data.txt'') t)
                (zip c (ice_get_recordings e (remote_calls w) c)) (fs w)"
    and "store_calls (snd (download_chunk e c w)) =
           store_calls w @ map (\<lambda>n. WriteJason (artifact_path e (str_int n @ ''_data.txt''))) c @
             [ExecuteUpdate c]"
  using assms
  by (simp_all add: download_chunk_def Let_def save_transcripts_fs save_transcripts_calls
      map_fst_zip_take)

text \<open>Along the loop: the calls, the markers, the files and the store-changing calls
  after the chunks before the first short one.\<close>

lemma download_chunks_calls:
  "remote_calls (snd (download_chunks e chs w)) =
     remote_calls w @ map GetRecordings (take (Suc (first_short e (remote_calls w) chs)) chs)"
proof (induction chs arbitrary: w)
  case Nil
  show ?case by simp
next
  case (Cons c cs)
  show ?case
  proof (cases "length (ice_get_recordings e (remote_calls w) c) < length c")
    case True
    obtain r w1 where d: "download_chunk e c w = (r, w1)" by (cases "download_chunk e c w")
    with download_chunk_short(1) [OF True] download_chunk_calls [of e c w] True
    show ?thesis by auto
  next
    case False
    obtain r w1 where d: "download_chunk e c w = (r, w1)" by (cases "download_chunk e c w")
    with download_chunk_complete(1) [OF False] download_chunk_calls [of e c w]
    have r: "r = None" and c1: "remote_calls w1 = remote_calls w @ [GetRecordings c]" by auto
    with d False Cons.IH [of w1] show ?thesis by simp
  qed
qed

lemma download_chunks_contacts:
  "contacts_tbl (snd (download_chunks e chs w)) =
     fold mark_rows (take (first_short e (remote_calls w) chs) chs) (contacts_tbl w)"
proof (induction chs arbitrary: w)
  case Nil
  show ?case by simp
next
  case (Cons c cs)
  show ?case
  proof (cases "length (ice_get_recordings e (remote_calls w) c) < length c")
    case True
    obtain r w1 where d: "download_chunk e c w = (r, w1)" by (cases "download_chunk e c w")
    with download_chunk_short [OF True] True
    show ?thesis by auto
  next
    case False
    obtain r w1 where d: "download_chunk e c w = (r, w1)" by (cases "download_chunk e c w")
    with download_chunk_complete [OF False] download_chunk_calls [of e c w]
    have r: "r = None" and c1: "remote_calls w1 = remote_calls w @ [GetRecordings c]"
      and c2: "contacts_tbl w1 = mark_rows c (contacts_tbl w)" by auto
    with d False Cons.IH [of w1] show ?thesis by simp
  qed
qed

lemma download_chunks_files:
  "fs (snd (download_chunks e chs w)) =
     chunk_files e (remote_calls w) (take (first_short e (remote_calls w) chs) chs) (fs w)"
proof (induction chs arbitrary: w)
  case Nil
  show ?case by simp
next
  case (Cons c cs)
  show ?case
  proof (cases "length (ice_get_recordings e (remote_calls w) c) < length c")
    case True
    obtain r w1 where d: "download_chunk e c w = (r, w1)" by (cases "download_chunk e c w")
    with download_chunk_short [OF True] True
    show ?thesis by auto
  next
    case False
    obtain r w1 where d: "download_chunk e c w = (r, w1)" by (cases "download_chunk e c w")
    with download_chunk_complete [OF False] download_chunk_calls [of e c w]
    have r: "r = None" and c1: "remote_calls w1 = remote_calls w @ [GetRecordings c]"
      and c2: "fs w1 = fold (\<lambda>(n, t) f. dict_set f (str_int n @ ''_data.txt'') t)
                         (zip c (ice_get_recordings e (remote_calls w) c)) (fs w)" by auto
    with d False Cons.IH [of w1] show ?thesis by simp
  qed
qed

lemma download_chunks_store:
  "store_calls (snd (download_chunks e chs w)) =
     store_calls w @
       concat (map (\<lambda>c. map (\<lambda>n. WriteJason (artifact_path e (str_int n @ ''_data.txt''))) c @
                          [ExecuteUpdate c])
                   (take (first_short e (remote_calls w) chs) chs))"
proof (induction chs arbitrary: w)
  case Nil
  show ?case by simp
next
  case (Cons c cs)
  show ?case
  proof (cases "length (ice_get_recordings e (remote_calls w) c) < length c")
    case True
    obtain r w1 where d: "download_chunk e c w = (r, w1)" by (cases "download_chunk e c w")
    with download_chunk_short [OF True] True
    show ?thesis by auto
  next
    case False
    obtain r w1 where d: "download_chunk e c w = (r, w1)" by (cases "download_chunk e c w")
    with download_chunk_complete [OF False] download_chunk_calls [of e c w]
    have r: "r = None" and c1: "remote_calls w1 = remote_calls w @ [GetRecordings c]"
      and c2: "store_calls w1 =
                 store_calls w @ map (\<lambda>n. WriteJason (artifact_path e (str_int n @ ''_data.txt''))) c @
                   [ExecuteUpdate c]" by auto
    with d False Cons.IH [of w1] show ?thesis by simp
  qed
qed

lemma first_short_le: "first_short e h chs \<le> length chs"
  by (induction chs arbitrary: h) auto

lemma download_chunks_outcome:
  "(fst (download_chunks e chs w) = None) = (first_short e (remote_calls w) chs = length chs)"
proof (induction chs arbitrary: w)
  case Nil
  show ?case by simp
next
  case (Cons c cs)
  show ?case
  proof (cases "length (ice_get_recordings e (remote_calls w) c) < length c")
    case True
    obtain r w1 where d: "download_chunk e c w = (r, w1)" by (cases "download_chunk e c w")
    with download_chunk_short [OF True] True
    show ?thesis by auto
  next
    case False
    obtain r w1 where d: "download_chunk e c w = (r, w1)" by (cases "download_chunk e c w")
    with download_chunk_complete [OF False] download_chunk_calls [of e c w]
    have r: "r = None" and c1: "remote_calls w1 = remote_calls w @ [GetRecordings c]" by auto
    with d False Cons.IH [of w1] show ?thesis by simp
  qed
qed

lemma missing_ids_eq:
  "missing_ids c rs = set c - {x. \<exists>v \<in> set rs. py_eq_int x v}"
  by (auto simp: missing_ids_def list_ex_iff)

lemma download_chunk_incomplete:
  assumes "length (ice_get_recordings e (remote_calls w) c) < length c"
    and "retrieved_ids (ice_get_recordings e (remote_calls w) c) = Inr rs"
    and "list_all hashable rs"
  shows "fst (download_chunk e c w) = Some (Exception ''Transcripts not returned for all contact ids'')"
    and "log_out (snd (download_chunk e c w)) =
           log_out w @ [(WARNING, ''Missing transcripts %s'', ArgIdSet (missing_ids c rs))]"
  using assms by (simp_all add: download_chunk_def Let_def)

lemma download_chunks_failure:
  assumes "first_short e (remote_calls w) chs < length chs"
  shows "length (ice_get_recordings e
                   (remote_calls w @ map GetRecordings (take (first_short e (remote_calls w) chs) chs))
                   (chs ! first_short e (remote_calls w) chs))
           < length (chs ! first_short e (remote_calls w) chs)"
    and "retrieved_ids (ice_get_recordings e
                   (remote_calls w @ map GetRecordings (take (first_short e (remote_calls w) chs) chs))
                   (chs ! first_short e (remote_calls w) chs)) = Inr rs \<Longrightarrow> list_all hashable rs \<Longrightarrow>
         fst (download_chunks e chs w) = Some (Exception ''Transcripts not returned for all contact ids'') \<and>
         log_out (snd (download_chunks e chs w)) =
           log_out w @ [(WARNING, ''Missing transcripts %s'',
                         ArgIdSet (missing_ids (chs ! first_short e (remote_calls w) chs) rs))]"
  using assms
proof (induction chs arbitrary: w)
  case Nil
  { case 1 then show ?case by simp }
  { case 2 then show ?case by simp }
next
  case (Cons c cs)
  {
    case 1
    show ?case
    proof (cases "length (ice_get_recordings e (remote_calls w) c) < length c")
      case True
      then show ?thesis by simp
    next
      case False
      obtain r w1 where d: "download_chunk e c w = (r, w1)" by (cases "download_chunk e c w")
      with download_chunk_calls [of e c w]
      have c1: "remote_calls w1 = remote_calls w @ [GetRecordings c]" by auto
      from False "1.prems" have "first_short e (remote_calls w1) cs < length cs" by (simp add: c1)
      from Cons.IH(1) [OF this] False show ?thesis by (simp add: c1)
    qed
  next
    case 2
    show ?case
    proof (cases "length (ice_get_recordings e (remote_calls w) c) < length c")
      case True
      obtain r w1 where d: "download_chunk e c w = (r, w1)" by (cases "download_chunk e c w")
      from True "2.prems" have "retrieved_ids (ice_get_recordings e (remote_calls w) c) = Inr rs" by simp
      from download_chunk_incomplete [OF True this "2.prems"(2)] d True
      show ?thesis by simp
    next
      case False
      obtain r w1 where d: "download_chunk e c w = (r, w1)" by (cases "download_chunk e c w")
      with download_chunk_calls [of e c w] download_chunk_complete [OF False]
      have c1: "remote_calls w1 = remote_calls w @ [GetRecordings c]" and r: "r = None"
        and l: "log_out w1 = log_out w" by auto
      from False "2.prems" have lt: "first_short e (remote_calls w1) cs < length cs" by (simp add: c1)
      from False "2.prems" have
        "retrieved_ids (ice_get_recordings e
            (remote_calls w1 @ map GetRecordings (take (first_short e (remote_calls w1) cs) cs))
            (cs ! first_short e (remote_calls w1) cs)) = Inr rs" by (simp add: c1)
      from Cons.IH(2) [OF this "2.prems"(2) lt] False d r l show ?thesis by (simp add: c1)
    qed
  }
qed

subsection \<open>Small numerals\<close>

lemma digit_char_eval:
  "digit_char 0 = CHR ''0''" "digit_char 1 = CHR ''1''" "digit_char 2 = CHR ''2''"
  "digit_char 3 = CHR ''3''" "digit_char 4 = CHR ''4''" "digit_char 5 = CHR ''5''"
  "digit_char 6 = CHR ''6''" "digit_char 7 = CHR ''7''" "digit_char 8 = CHR ''8''"
  "digit_char 9 = CHR ''9''"
  by code_simp+

lemma digit_char_Suc:
  "digit_char (Suc 0) = CHR ''1''" "digit_char (Suc (Suc 0)) = CHR ''2''"
  by code_simp+

lemma str_nat_small: "n < 10 \<Longrightarrow> str_nat n = [digit_char n]"
  by (simp add: str_nat.simps)

lemma str_nat_2: "10 \<le> n \<Longrightarrow> n < 100 \<Longrightarrow> str_nat n = [digit_char (n div 10), digit_char (n mod 10)]"
  by (subst str_nat.simps) (simp add: str_nat_small)

section \<open>Properties of \<^verbatim>\<open>download_contacts\<close>\<close>

lemma year_of_sum:
  "year_of y n = (y', r) \<Longrightarrow> n + days_before_year y = r + days_before_year y'"
proof (induction y n rule: year_of.induct)
  case (1 y n)
  show ?case
  proof (cases "n < days_in_year y")
    case True
    with "1.prems" show ?thesis by (simp add: year_of.simps [of y n])
  next
    case False
    with "1.prems" have "year_of (Suc y) (n - days_in_year y) = (y', r)"
      by (simp add: year_of.simps [of y n])
    from "1.IH" [OF False this] False show ?thesis
      by (simp add: days_before_year_def)
  qed
qed

lemma year_of_inj: "year_of y a = year_of y b \<Longrightarrow> a = b"
proof -
  assume eq: "year_of y a = year_of y b"
  obtain y' r where b: "year_of y b = (y', r)" by (cases "year_of y b")
  with eq have a: "year_of y a = (y', r)" by simp
  from year_of_sum [OF a] year_of_sum [OF b] show "a = b" by simp
qed

lemma month_of_sum:
  "month_of y m n = (m', r) \<Longrightarrow> n + (\<Sum>k<m. days_in_month y k) = r + (\<Sum>k<m'. days_in_month y k)"
proof (induction y m n rule: month_of.induct)
  case (1 y m n)
  show ?case
  proof (cases "n < days_in_month y m")
    case True
    with "1.prems" show ?thesis by (simp add: month_of.simps [of y m n])
  next
    case False
    with "1.prems" have "month_of y (Suc m) (n - days_in_month y m) = (m', r)"
      by (simp add: month_of.simps [of y m n])
    from "1.IH" [OF False this] False show ?thesis by simp
  qed
qed

lemma month_of_inj: "month_of y m a = month_of y m b \<Longrightarrow> a = b"
proof -
  assume eq: "month_of y m a = month_of y m b"
  obtain m' r where b: "month_of y m b = (m', r)" by (cases "month_of y m b")
  with eq have a: "month_of y m a = (m', r)" by simp
  from month_of_sum [OF a] month_of_sum [OF b] show "a = b" by simp
qed

lemma ymd_inj: "ymd a = ymd b \<Longrightarrow> a = b"
proof -
  assume eq: "ymd a = ymd b"
  obtain ya ra where a: "year_of 1 a = (ya, ra)" by (cases "year_of 1 a")
  obtain yb rb where b: "year_of 1 b = (yb, rb)" by (cases "year_of 1 b")
  obtain ma da where ma: "month_of ya 1 ra = (ma, da)" by (cases "month_of ya 1 ra")
  obtain mb db where mb: "month_of yb 1 rb = (mb, db)" by (cases "month_of yb 1 rb")
  from eq a b ma mb have y: "ya = yb" and m: "ma = mb" and d: "da = db"
    by (simp_all add: ymd_def)
  from ma mb y m d have "month_of ya 1 ra = month_of ya 1 rb" by simp
  then have "ra = rb" by (rule month_of_inj)
  with a b y have "year_of 1 a = year_of 1 b" by simp
  then show "a = b" by (rule year_of_inj)
qed

lemma digits_val_snoc: "digits_val (s @ [c]) = digits_val s * 10 + ((of_char c :: nat) - 48)"
  by (simp add: digits_val_def)

lemma digits_val_str_nat: "digits_val (str_nat n) = n"
proof (induction n rule: str_nat.induct)
  case (1 n)
  show ?case
  proof (cases "n < 10")
    case True
    then show ?thesis
      by (simp add: str_nat.simps [of n] digits_val_def of_char_digit_char)
  next
    case False
    with "1.IH" have "digits_val (str_nat (n div 10)) = n div 10" by simp
    with False show ?thesis
      by (simp add: str_nat.simps [of n] digits_val_snoc of_char_digit_char)
  qed
qed

lemma foldl_zeros:
  "foldl (\<lambda>acc c. acc * 10 + ((of_char c :: nat) - 48)) 0 (replicate k (CHR ''0'')) = 0"
  by (induction k) simp_all

lemma digits_val_zfill: "digits_val (zfill w s) = digits_val s"
  by (simp add: zfill_def digits_val_def foldl_zeros)

lemma zfill_str_nat_inj: "zfill w (str_nat a) = zfill w (str_nat b) \<Longrightarrow> a = b"
proof -
  assume "zfill w (str_nat a) = zfill w (str_nat b)"
  then have "digits_val (zfill w (str_nat a)) = digits_val (zfill w (str_nat b))" by simp
  then show "a = b" by (simp add: digits_val_zfill digits_val_str_nat)
qed

lemma zfill_str_nat_digits: "c \<in> set (zfill w (str_nat n)) \<Longrightarrow> is_digit c"
  by (auto simp: zfill_def is_digit_def dest: str_nat_digits)

lemma dash_notin_zfill: "CHR ''-'' \<notin> set (zfill w (str_nat n))"
  using zfill_str_nat_digits not_digit_dash by blast

lemma split_at_first:
  "x \<notin> set xs \<Longrightarrow> x \<notin> set xs' \<Longrightarrow> xs @ x # ys = xs' @ x # ys' \<Longrightarrow> xs = xs' \<and> ys = ys'"
proof (induction xs arbitrary: xs')
  case Nil
  then show ?case by (cases xs') auto
next
  case (Cons a xs)
  then show ?case by (cases xs') auto
qed

lemma str_nat_inj: "str_nat a = str_nat b \<Longrightarrow> a = b"
proof -
  assume "str_nat a = str_nat b"
  then have "digits_val (str_nat a) = digits_val (str_nat b)" by simp
  then show "a = b" by (simp add: digits_val_str_nat)
qed

lemma dash_notin_str_nat: "CHR ''-'' \<notin> set (str_nat n)"
  using str_nat_digits not_digit_dash by blast

lemma fmt_date_inj: "fmt_date a = fmt_date b \<Longrightarrow> a = b"
proof -
  assume eq: "fmt_date a = fmt_date b"
  obtain ya ma da where a: "ymd a = (ya, ma, da)" by (cases "ymd a")
  obtain yb mb db where b: "ymd b = (yb, mb, db)" by (cases "ymd b")
  from eq a b have
    "str_nat ya @ CHR ''-'' # (zfill 2 (str_nat ma) @ CHR ''-'' # zfill 2 (str_nat da)) =
     str_nat yb @ CHR ''-'' # (zfill 2 (str_nat mb) @ CHR ''-'' # zfill 2 (str_nat db))"
    by (simp add: fmt_date_def)
  from split_at_first [OF dash_notin_str_nat dash_notin_str_nat this]
  have y: "str_nat ya = str_nat yb"
    and r: "zfill 2 (str_nat ma) @ CHR ''-'' # zfill 2 (str_nat da) =
            zfill 2 (str_nat mb) @ CHR ''-'' # zfill 2 (str_nat db)"
    by simp_all
  from split_at_first [OF dash_notin_zfill dash_notin_zfill r]
  have m: "zfill 2 (str_nat ma) = zfill 2 (str_nat mb)"
    and d: "zfill 2 (str_nat da) = zfill 2 (str_nat db)"
    by simp_all
  from y m d have "ya = yb" "ma = mb" "da = db" by (auto dest: zfill_str_nat_inj str_nat_inj)
  with a b have "ymd a = ymd b" by simp
  then show "a = b" by (rule ymd_inj)
qed

lemma slash_notin_fmt_date: "CHR ''/'' \<notin> set (fmt_date d)"
proof -
  obtain y m dd where a: "ymd d = (y, m, dd)" by (cases "ymd d")
  have "\<And>w n. CHR ''/'' \<notin> set (zfill w (str_nat n))"
    using zfill_str_nat_digits not_digit_slash by blast
  moreover have "\<And>n. CHR ''/'' \<notin> set (str_nat n)"
    using str_nat_digits not_digit_slash by blast
  ultimately show ?thesis using a by (simp add: fmt_date_def)
qed

lemma strftime_dt_midnight: "strftime_dt (timedelta_days (int d)) = fmt_date d"
  by (simp add: strftime_dt_def timedelta_days_def us_per_day_def)

lemma zfill_one:
  "zfill 2 [c] = [CHR ''0'', c]" "zfill 6 [c] = [CHR ''0'', CHR ''0'', CHR ''0'', CHR ''0'', CHR ''0'', c]"
  by (simp_all add: zfill_def numeral_eq_Suc)

lemma zfill_full: "w \<le> length s \<Longrightarrow> zfill w s = s"
  by (simp add: zfill_def)

lemma strftime_tm_midnight:
  "strftime_tm (timedelta_days (int d)) = fmt_date d @ ''T00:00:00.000000''"
  by (simp add: strftime_tm_def timedelta_days_def us_per_day_def Let_def zfill_one str_nat_small
      digit_char_eval)

lemma last_ms_div: "(int d * 86400000000 + 86400000000 - 1000) div 86400000000 = int d"
  by simp

lemma last_ms_mod: "(int d * 86400000000 + 86400000000 - 1000) mod 86400000000 = 86399999000"
proof -
  have "(int d * 86400000000 + 86400000000 - 1000) = 86399999000 + int d * 86400000000" by simp
  then show ?thesis by (simp only: mod_mult_self3) simp
qed

lemma strftime_tm_last_ms:
  "strftime_tm (timedelta_days (int d) + timedelta_days 1 - timedelta_milliseconds 1) =
     fmt_date d @ ''T23:59:59.999000''"
proof -
  have s6: "str_nat 999000 = ''999000''"
    by (simp add: str_nat.simps digit_char_eval)
  show ?thesis
    by (simp add: strftime_tm_def timedelta_days_def timedelta_milliseconds_def us_per_day_def Let_def
        last_ms_div last_ms_mod zfill_full str_nat_2 s6 digit_char_eval)
qed

lemma datetime_add_day:
  "d < day_9999_12_31 \<Longrightarrow>
   datetime_add (timedelta_days (int d)) (timedelta_days 1) =
     Inr (timedelta_days (int d) + timedelta_days 1)"
  by (simp add: datetime_add_def datetime_max_def timedelta_days_def us_per_day_def day_9999_12_31_def)

lemma datetime_add_ms:
  "d < day_9999_12_31 \<Longrightarrow>
   datetime_add (timedelta_days (int d) + timedelta_days 1) (- timedelta_milliseconds 1) =
     Inr (timedelta_days (int d) + timedelta_days 1 - timedelta_milliseconds 1)"
  by (simp add: datetime_add_def datetime_max_def timedelta_days_def timedelta_milliseconds_def
      us_per_day_def day_9999_12_31_def)

lemma download_day_midnight:
  "d < day_9999_12_31 \<Longrightarrow> download_day e it (timedelta_days (int d)) w = (None, day_step e it d w)"
  by (simp add: download_day_def datetime_add_day datetime_add_ms Let_def strftime_tm_midnight
      strftime_tm_last_ms strftime_dt_midnight day_call_def day_file_def day_step_def)

lemma download_day_overflow:
  "download_day e it (timedelta_days (int day_9999_12_31)) w = (Some OverflowError, w)"
  by (simp add: download_day_def datetime_add_def datetime_max_def timedelta_days_def us_per_day_def
      day_9999_12_31_def)

lemma download_days_in_range:
  "\<forall>d \<in> set ds. d < day_9999_12_31 \<Longrightarrow>
   download_days e it (map (\<lambda>d. timedelta_days (int d)) ds) w = (None, fold (day_step e it) ds w)"
  by (induction ds arbitrary: w) (simp_all add: download_day_midnight)

lemma slash_notin_day_file: "CHR ''/'' \<notin> set it \<Longrightarrow> CHR ''/'' \<notin> set (day_file it d)"
  by (simp add: day_file_def slash_notin_fmt_date)

lemma day_file_inj: "day_file it a = day_file it b \<Longrightarrow> a = b"
  by (simp add: day_file_def fmt_date_inj)

lemma day_step_frame [simp]:
  "remote_calls (day_step e it d w) = remote_calls w @ [day_call it d]"
  "store_calls (day_step e it d w) = store_calls w @ [WriteJason (artifact_path e (day_file it d))]"
  "contacts_tbl (day_step e it d w) = contacts_tbl w"
  "transcripts_tbl (day_step e it d w) = transcripts_tbl w"
  "enhanced_tbl (day_step e it d w) = enhanced_tbl w"
  "log_out (day_step e it d w) = log_out w"
  by (simp_all add: day_step_def)

lemma day_step_fs:
  "CHR ''/'' \<notin> set it \<Longrightarrow>
   fs (day_step e it d w) =
     dict_set (fs w) (day_file it d)
       (ice_get_contacts e (remote_calls w) it
          (Some (fmt_date d @ ''T00:00:00.000000'', fmt_date d @ ''T23:59:59.999000'')))"
  by (simp add: day_step_def save_data_fs slash_notin_day_file)

lemma days_calls:
  "remote_calls (fold (day_step e it) ds w) = remote_calls w @ map (day_call it) ds"
  by (induction ds arbitrary: w) simp_all

lemma days_store:
  "store_calls (fold (day_step e it) ds w) =
     store_calls w @ map (\<lambda>d. WriteJason (artifact_path e (day_file it d))) ds"
  by (induction ds arbitrary: w) simp_all

lemma days_other:
  assumes it: "CHR ''/'' \<notin> set it"
  shows "f \<notin> day_file it ` set ds \<Longrightarrow> map_of (fs (fold (day_step e it) ds w)) f = map_of (fs w) f"
proof (induction ds rule: rev_induct)
  case Nil
  show ?case by simp
next
  case (snoc d ds)
  then show ?case
    by (simp add: day_step_fs [OF it] map_of_dict_set)
qed

lemma days_file:
  assumes it: "CHR ''/'' \<notin> set it"
  shows "distinct ds \<Longrightarrow> i < length ds \<Longrightarrow>
     map_of (fs (fold (day_step e it) ds w)) (day_file it (ds ! i)) =
       Some (ice_get_contacts e (remote_calls w @ map (day_call it) (take i ds)) it
          (Some (fmt_date (ds ! i) @ ''T00:00:00.000000'', fmt_date (ds ! i) @ ''T23:59:59.999000'')))"
proof (induction ds rule: rev_induct)
  case Nil
  then show ?case by simp
next
  case (snoc d ds)
  show ?case
  proof (cases "i < length ds")
    case True
    with snoc.prems have ne: "ds ! i \<noteq> d" by (auto simp: in_set_conv_nth)
    then have "day_file it (ds ! i) \<noteq> day_file it d" using day_file_inj by blast
    moreover from snoc.prems have "distinct ds" by simp
    ultimately show ?thesis using True snoc.IH
      by (simp add: day_step_fs [OF it] map_of_dict_set nth_append)
  next
    case False
    with snoc.prems have "i = length ds" by simp
    then show ?thesis
      by (simp add: day_step_fs [OF it] map_of_dict_set days_calls)
  qed
qed

lemma div_mult_add: "r < k \<Longrightarrow> (q * k + r) div k = q" for k :: nat
  by simp

lemma div_step:
  fixes k :: nat
  assumes k: "0 < k"
  shows "(Suc y + (k - 1)) div k = (y + (k - 1)) div k + (if y mod k = 0 then 1 else 0)"
proof -
  define r where "r = y mod k"
  define q where "q = y div k"
  have y: "y = q * k + r" by (simp add: q_def r_def)
  have rk: "r < k" using k by (simp add: r_def)
  have e: "Suc y + (k - 1) = Suc q * k + r" using k by (simp add: y)
  have a: "(Suc y + (k - 1)) div k = Suc q"
    unfolding e using rk by (rule div_mult_add)
  show ?thesis
  proof (cases "r = 0")
    case True
    have e2: "y + (k - 1) = q * k + (k - 1)" by (simp add: y True)
    have "(y + (k - 1)) div k = q" unfolding e2 using k by (intro div_mult_add) simp
    with a True show ?thesis by (simp add: r_def)
  next
    case False
    have e3: "y + (k - 1) = Suc q * k + (r - 1)" using False k by (simp add: y)
    have "(y + (k - 1)) div k = Suc q" unfolding e3 using rk by (intro div_mult_add) simp
    with a False show ?thesis by (simp add: r_def)
  qed
qed

lemma mod_400_100: "y mod 400 = 0 \<Longrightarrow> y mod 100 = (0::nat)"
  using mod_mod_cancel [of 100 400 y] by simp

lemma mod_100_4: "y mod 100 = 0 \<Longrightarrow> y mod 4 = (0::nat)"
  using mod_mod_cancel [of 4 100 y] by simp

lemma days_in_year_ind:
  "days_in_year y + (if y mod 100 = 0 then 1 else 0) =
     365 + (if y mod 4 = 0 then 1 else 0) + (if y mod 400 = 0 then 1 else 0)"
  using mod_400_100 [of y] mod_100_4 [of y]
  by (auto simp: days_in_year_def is_leap_def)

lemma days_before_year_closed:
  "days_before_year y + (y + 99) div 100 = 365 * y + (y + 3) div 4 + (y + 399) div 400"
proof (induction y)
  case 0
  show ?case by (simp add: days_before_year_def)
next
  case (Suc y)
  have s: "days_before_year (Suc y) = days_before_year y + days_in_year y"
    by (simp add: days_before_year_def)
  have d4: "(Suc y + 3) div 4 = (y + 3) div 4 + (if y mod 4 = 0 then 1 else 0)"
    using div_step [of 4 y] by simp
  have d100: "(Suc y + 99) div 100 = (y + 99) div 100 + (if y mod 100 = 0 then 1 else 0)"
    using div_step [of 100 y] by simp
  have d400: "(Suc y + 399) div 400 = (y + 399) div 400 + (if y mod 400 = 0 then 1 else 0)"
    using div_step [of 400 y] by simp
  have "days_before_year (Suc y) + (Suc y + 99) div 100 =
        (days_before_year y + (y + 99) div 100) + (days_in_year y + (if y mod 100 = 0 then 1 else 0))"
    by (simp only: s d100)
  also have "\<dots> = (365 * y + (y + 3) div 4 + (y + 399) div 400) +
        (365 + (if y mod 4 = 0 then 1 else 0) + (if y mod 400 = 0 then 1 else 0))"
    by (simp only: Suc.IH days_in_year_ind)
  also have "\<dots> = 365 * Suc y + (Suc y + 3) div 4 + (Suc y + 399) div 400"
    by (simp only: d4 d400) simp
  finally show ?case .
qed

lemma days_before_year_eq:
  "days_before_year y = 365 * y + (y + 3) div 4 + (y + 399) div 400 - (y + 99) div 100"
  using days_before_year_closed [of y] by simp

lemma days_before_year_mono: "y \<le> y' \<Longrightarrow> days_before_year y \<le> days_before_year y'"
  by (simp add: days_before_year_def sum_mono2)

lemma year_of_jump:
  "y \<le> y' \<Longrightarrow> days_before_year y' - days_before_year y \<le> n \<Longrightarrow>
   year_of y n = year_of y' (n - (days_before_year y' - days_before_year y))"
proof (induction y' rule: dec_induct)
  case base
  show ?case by simp
next
  case (step k)
  have s: "days_before_year (Suc k) = days_before_year k + days_in_year k"
    by (simp add: days_before_year_def)
  from step.hyps(1) have m: "days_before_year y \<le> days_before_year k"
    by (rule days_before_year_mono)
  from step.prems s m have le: "days_before_year k - days_before_year y \<le> n" by simp
  from step.prems s m have ge: "\<not> n - (days_before_year k - days_before_year y) < days_in_year k"
    by simp
  have "year_of y n = year_of k (n - (days_before_year k - days_before_year y))"
    using le by (rule step.IH)
  also have "\<dots> = year_of (Suc k) (n - (days_before_year k - days_before_year y) - days_in_year k)"
    using ge by (subst year_of.simps) simp
  also have "n - (days_before_year k - days_before_year y) - days_in_year k =
             n - (days_before_year (Suc k) - days_before_year y)"
    using s m by simp
  finally show ?case .
qed

lemma year_of_at:
  assumes "Suc 0 \<le> y"
    and "days_before_year y - days_before_year (Suc 0) \<le> n"
    and "n - (days_before_year y - days_before_year (Suc 0)) < days_in_year y"
  shows "year_of (Suc 0) n = (y, n - (days_before_year y - days_before_year (Suc 0)))"
proof -
  have "year_of (Suc 0) n = year_of y (n - (days_before_year y - days_before_year (Suc 0)))"
    using assms(1,2) by (rule year_of_jump)
  also have "\<dots> = (y, n - (days_before_year y - days_before_year (Suc 0)))"
    using assms(3) by (subst year_of.simps) simp
  finally show ?thesis .
qed

lemma year_of_2018:
  "736694 \<le> n \<Longrightarrow> n < 737059 \<Longrightarrow> year_of (Suc 0) n = (2018, n - 736694)"
proof -
  assume a: "736694 \<le> n" and b: "n < 737059"
  have d: "days_before_year 2018 - days_before_year (Suc 0) = 736694"
    by (simp add: days_before_year_eq)
  have y: "days_in_year 2018 = 365" by (simp add: days_in_year_def is_leap_def)
  from year_of_at [of 2018 n] a b show ?thesis by (simp add: d y)
qed

lemma year_of_1000:
  "364877 \<le> n \<Longrightarrow> n < 365242 \<Longrightarrow> year_of (Suc 0) n = (1000, n - 364877)"
proof -
  assume a: "364877 \<le> n" and b: "n < 365242"
  have d: "days_before_year 1000 - days_before_year (Suc 0) = 364877"
    by (simp add: days_before_year_eq)
  have y: "days_in_year 1000 = 365" by (simp add: days_in_year_def is_leap_def)
  from year_of_at [of 1000 n] a b show ?thesis by (simp add: d y)
qed

lemma year_of_9999:
  "3651694 \<le> n \<Longrightarrow> n < 3652059 \<Longrightarrow> year_of (Suc 0) n = (9999, n - 3651694)"
proof -
  assume a: "3651694 \<le> n" and b: "n < 3652059"
  have d: "days_before_year 9999 - days_before_year (Suc 0) = 3651694"
    by (simp add: days_before_year_eq)
  have y: "days_in_year 9999 = 365" by (simp add: days_in_year_def is_leap_def)
  from year_of_at [of 9999 n] a b show ?thesis by (simp add: d y)
qed

lemma month_of_eval:
  "n < days_in_month y m \<Longrightarrow> month_of y m n = (m, n)"
  "\<not> n < days_in_month y m \<Longrightarrow> month_of y m n = month_of y (Suc m) (n - days_in_month y m)"
  by (subst month_of.simps, simp)+

lemma str_nat_4:
  "1000 \<le> n \<Longrightarrow> n < 10000 \<Longrightarrow>
   str_nat n = [digit_char (n div 1000), digit_char (n div 100 mod 10), digit_char (n div 10 mod 10),
                digit_char (n mod 10)]"
proof -
  assume a: "1000 \<le> n" and b: "n < 10000"
  from a b have d1: "\<not> n < 10" and d2: "\<not> n div 10 < 10"
    and d3: "10 \<le> n div 10 div 10" "n div 10 div 10 < 100" by arith+
  have 1: "str_nat n = str_nat (n div 10) @ [digit_char (n mod 10)]"
    using d1 by (subst str_nat.simps) simp
  have 2: "str_nat (n div 10) = str_nat (n div 10 div 10) @ [digit_char (n div 10 mod 10)]"
    using d2 by (subst str_nat.simps) simp
  have 3: "str_nat (n div 10 div 10) = [digit_char (n div 10 div 10 div 10), digit_char (n div 10 div 10 mod 10)]"
    using d3 by (rule str_nat_2)
  have e: "n div 10 div 10 = n div 100" "n div 100 div 10 = n div 1000"
    by (simp_all add: div_mult2_eq [symmetric])
  have "str_nat n = [digit_char (n div 10 div 10 div 10), digit_char (n div 10 div 10 mod 10),
                     digit_char (n div 10 mod 10), digit_char (n mod 10)]"
    by (simp only: 1 2 3 append.simps)
  then show ?thesis by (simp only: e)
qed

lemma fmt_date_ex:
  "fmt_date 736724 = ''2018-01-31''" "fmt_date 736725 = ''2018-02-01''"
  by (simp_all add: fmt_date_def ymd_def year_of_2018 month_of_eval days_in_month_def is_leap_def
      zfill_one zfill_full str_nat_4 str_nat_small str_nat_2 digit_char_eval digit_char_Suc)

lemma fmt_date_bounds:
  "fmt_date day_1000_01_01 = ''1000-01-01''" "fmt_date day_9999_12_31 = ''9999-12-31''"
  by (simp_all add: fmt_date_def ymd_def year_of_1000 year_of_9999 month_of_eval days_in_month_def
      is_leap_def zfill_one zfill_full str_nat_4 str_nat_small str_nat_2 digit_char_eval digit_char_Suc
      day_1000_01_01_def day_9999_12_31_def)

subsection \<open>Four digits for the year\<close>

lemma year_of_lower: "year_of y n = (y', r) \<Longrightarrow> y \<le> y' \<and> r < days_in_year y'"
proof (induction y n rule: year_of.induct)
  case (1 y n)
  show ?case
  proof (cases "n < days_in_year y")
    case True
    with "1.prems" show ?thesis by (simp add: year_of.simps [of y n])
  next
    case False
    with "1.prems" have "year_of (Suc y) (n - days_in_year y) = (y', r)"
      by (simp add: year_of.simps [of y n])
    from "1.IH" [OF False this] show ?thesis by simp
  qed
qed

lemma year_in_range:
  assumes lo: "day_1000_01_01 \<le> n" and hi: "n \<le> day_9999_12_31"
    and y: "year_of (Suc 0) n = (y, r)"
  shows "1000 \<le> y \<and> y < 10000 \<and> r < days_in_year y"
proof -
  have d: "days_before_year 1000 - days_before_year (Suc 0) = 364877"
    by (simp add: days_before_year_eq)
  have "year_of (Suc 0) n = year_of 1000 (n - (days_before_year 1000 - days_before_year (Suc 0)))"
    using lo by (intro year_of_jump) (simp_all add: d day_1000_01_01_def)
  with y have "year_of 1000 (n - (days_before_year 1000 - days_before_year (Suc 0))) = (y, r)"
    by simp
  from year_of_lower [OF this] have low: "1000 \<le> y" and rest: "r < days_in_year y" by simp_all
  have up: "y < 10000"
  proof (rule ccontr)
    assume "\<not> y < 10000"
    then have "days_before_year 10000 \<le> days_before_year y"
      by (intro days_before_year_mono) simp
    moreover have "days_before_year 10000 = 3652425" "days_before_year (Suc 0) = 366"
      by (simp_all add: days_before_year_eq)
    moreover from year_of_sum [OF y] have "n + days_before_year (Suc 0) = r + days_before_year y" .
    ultimately show False using hi by (simp add: day_9999_12_31_def)
  qed
  from low up rest show ?thesis by simp
qed

lemma month_of_rest: "month_of y m n = (m', r) \<Longrightarrow> m \<le> m' \<and> r < days_in_month y m'"
proof (induction y m n rule: month_of.induct)
  case (1 y m n)
  show ?case
  proof (cases "n < days_in_month y m")
    case True
    with "1.prems" show ?thesis by (simp add: month_of.simps [of y m n])
  next
    case False
    with "1.prems" have "month_of y (Suc m) (n - days_in_month y m) = (m', r)"
      by (simp add: month_of.simps [of y m n])
    from "1.IH" [OF False this] show ?thesis by simp
  qed
qed

lemma months_sum: "(\<Sum>k<13. days_in_month y k) = 31 + days_in_year y"
proof -
  have "{..<13::nat} = {0, 1, 2, 3, 4, 5, 6, 7, 8, 9, 10, 11, 12}" by auto arith
  then show ?thesis by (simp add: days_in_month_def days_in_year_def)
qed

lemma month_in_range:
  assumes r: "r < days_in_year y" and m: "month_of y (Suc 0) r = (m, d)"
  shows "Suc 0 \<le> m \<and> m \<le> 12 \<and> d < 31"
proof -
  from month_of_rest [OF m] have low: "Suc 0 \<le> m" and rest: "d < days_in_month y m" by simp_all
  have up: "m \<le> 12"
  proof (rule ccontr)
    assume "\<not> m \<le> 12"
    then have "{..<13} \<subseteq> {..<m}" by auto
    then have "(\<Sum>k<13. days_in_month y k) \<le> (\<Sum>k<m. days_in_month y k)"
      by (intro sum_mono2) simp_all
    moreover from month_of_sum [OF m]
    have "r + (\<Sum>k<Suc 0. days_in_month y k) = d + (\<Sum>k<m. days_in_month y k)" .
    moreover have "(\<Sum>k<Suc 0. days_in_month y k) = 31" by (simp add: days_in_month_def)
    ultimately show False using r by (simp add: months_sum)
  qed
  from rest have "d < 31" by (simp add: days_in_month_def split: if_splits)
  with low up show ?thesis by simp
qed

lemma length_zfill_2: "n < 100 \<Longrightarrow> length (zfill 2 (str_nat n)) = 2"
proof (cases "n < 10")
  case True
  then show ?thesis by (simp add: str_nat_small zfill_def)
next
  case False
  assume "n < 100"
  with False show ?thesis by (simp add: str_nat_2 zfill_def)
qed

lemma length_fmt_date:
  assumes lo: "day_1000_01_01 \<le> n" and hi: "n \<le> day_9999_12_31"
  shows "length (fmt_date n) = 10"
proof -
  obtain y r where y: "year_of (Suc 0) n = (y, r)" by (cases "year_of (Suc 0) n")
  obtain m d where m: "month_of y (Suc 0) r = (m, d)" by (cases "month_of y (Suc 0) r")
  from year_in_range [OF lo hi y] have yr: "1000 \<le> y" "y < 10000" and r: "r < days_in_year y"
    by simp_all
  from month_in_range [OF r m] have mr: "m < 100" and dr: "Suc d < 100" by simp_all
  from y m have "fmt_date n = str_nat y @ ''-'' @ zfill 2 (str_nat m) @ ''-'' @ zfill 2 (str_nat (Suc d))"
    by (simp add: fmt_date_def ymd_def)
  then show ?thesis
    by (simp add: str_nat_4 [OF yr] length_zfill_2 [OF mr] length_zfill_2 [OF dr])
qed

text \<open>
  C3, as amended. For a start and an end date from 1000-01-01 to 9999-12-30,
  \<^verbatim>\<open>download_contacts\<close> ends without an error and issues one remote call per calendar
  day from the start to the end date, in order, \<open>N = end - start + 1\<close> calls for a range of
  \<open>N\<close> days; the window of the call for a day runs from that day's \<^verbatim>\<open>00:00:00.000\<close>
  to its \<^verbatim>\<open>23:59:59.999\<close>, written in the format \<^verbatim>\<open>%Y-%m-%dT%H:%M:%S.%f\<close> with
  the ten characters of the date first. It writes \<open>N\<close> artifacts, one per day in the
  same order, under \<open>N\<close> different names \<^verbatim>\<open>{type}_{date}_contacts.txt\<close>; each holds
  the answer to its own day's call, and no other file changes. (An interaction type is a
  plain word: it has no \<^verbatim>\<open>/\<close>.)
\<close>

theorem download_contacts_days:
  assumes ty: "CHR ''/'' \<notin> set interaction_type"
    and lo: "day_1000_01_01 \<le> s"
    and hi: "t < day_9999_12_31"
    and run: "download_contacts e interaction_type (Some s) (Some t) w = (r, w')"
    and days: "days = [s..<Suc t]"
  shows "r = None \<and> length days = Suc t - s \<and>
         remote_calls w' = remote_calls w @
           map (\<lambda>d. GetContacts interaction_type
                  (Some (fmt_date d @ ''T00:00:00.000000'', fmt_date d @ ''T23:59:59.999000''))) days \<and>
         (\<forall>d \<in> set days. length (fmt_date d) = 10) \<and>
         store_calls w' = store_calls w @
           map (\<lambda>d. WriteJason (artifact_path e (interaction_type @ ''_'' @ fmt_date d @ ''_contacts.txt'')))
               days \<and>
         distinct (map (\<lambda>d. interaction_type @ ''_'' @ fmt_date d @ ''_contacts.txt'') days) \<and>
         (\<forall>i < length days.
            map_of (fs w') (interaction_type @ ''_'' @ fmt_date (days ! i) @ ''_contacts.txt'') =
              Some (ice_get_contacts e
                      (remote_calls w @
                         map (\<lambda>d. GetContacts interaction_type
                                (Some (fmt_date d @ ''T00:00:00.000000'', fmt_date d @ ''T23:59:59.999000'')))
                             (take i days))
                      interaction_type
                      (Some (fmt_date (days ! i) @ ''T00:00:00.000000'',
                             fmt_date (days ! i) @ ''T23:59:59.999000'')))) \<and>
         (\<forall>f. f \<notin> (\<lambda>d. interaction_type @ ''_'' @ fmt_date d @ ''_contacts.txt'') ` set days \<longrightarrow>
            map_of (fs w') f = map_of (fs w) f)"
proof -
  have range: "\<forall>d \<in> set days. d < day_9999_12_31"
    using hi by (auto simp: days)
  have "download_contacts e interaction_type (Some s) (Some t) w =
      (None, fold (day_step e interaction_type) days w)"
    using download_days_in_range [OF range, of e interaction_type w]
    by (simp add: days download_contacts_def generate_date_range_def)
  with run have r: "r = None" and w': "w' = fold (day_step e interaction_type) days w"
    by simp_all
  have dist: "distinct days" by (simp add: days)
  have call: "day_call interaction_type =
      (\<lambda>d. GetContacts interaction_type
            (Some (fmt_date d @ ''T00:00:00.000000'', fmt_date d @ ''T23:59:59.999000'')))"
    by (simp add: fun_eq_iff day_call_def)
  have name: "day_file interaction_type = (\<lambda>d. interaction_type @ ''_'' @ fmt_date d @ ''_contacts.txt'')"
    by (simp add: fun_eq_iff day_file_def)
  have 1: "length days = Suc t - s" by (simp only: days length_upt)
  have 2: "remote_calls w' = remote_calls w @ map (day_call interaction_type) days"
    by (simp only: w' days_calls)
  have 3: "distinct (map (day_file interaction_type) days)"
    using dist by (simp add: distinct_map inj_on_def day_file_inj)
  have 4: "\<forall>i < length days.
            map_of (fs w') (day_file interaction_type (days ! i)) =
              Some (ice_get_contacts e
                      (remote_calls w @ map (day_call interaction_type) (take i days))
                      interaction_type
                      (Some (fmt_date (days ! i) @ ''T00:00:00.000000'',
                             fmt_date (days ! i) @ ''T23:59:59.999000'')))"
    using days_file [OF ty dist] by (simp only: w') blast
  have 5: "\<forall>f. f \<notin> day_file interaction_type ` set days \<longrightarrow> map_of (fs w') f = map_of (fs w) f"
    using days_other [OF ty] by (simp only: w') blast
  have 6: "\<forall>d \<in> set days. length (fmt_date d) = 10"
    using lo hi by (auto simp: days intro!: length_fmt_date)
  have 7: "store_calls w' = store_calls w @
      map (\<lambda>d. WriteJason (artifact_path e (day_file interaction_type d))) days"
    by (simp only: w' days_store)
  from r 1 2 3 4 5 6 7 show ?thesis
    unfolding call name by (simp only: day_file_def)
qed

theorem download_contacts_days_witness:
  "fst (download_contacts ex_env ''IM'' (Some 736724) (Some 736725) ex_world) = None \<and>
   remote_calls (snd (download_contacts ex_env ''IM'' (Some 736724) (Some 736725) ex_world)) =
     [GetContacts ''IM'' (Some (''2018-01-31T00:00:00.000000'', ''2018-01-31T23:59:59.999000'')),
      GetContacts ''IM'' (Some (''2018-02-01T00:00:00.000000'', ''2018-02-01T23:59:59.999000''))] \<and>
   map_of (fs (snd (download_contacts ex_env ''IM'' (Some 736724) (Some 736725) ex_world)))
     ''IM_2018-01-31_contacts.txt'' = Some (PList []) \<and>
   map_of (fs (snd (download_contacts ex_env ''IM'' (Some 736724) (Some 736725) ex_world)))
     ''IM_2018-02-01_contacts.txt'' = Some (PList []) \<and>
   map_of (fs (snd (download_contacts ex_env ''IM'' (Some 736724) (Some 736725) ex_world)))
     ''IM_2018-02-02_contacts.txt'' = None"
proof -
  have ty: "CHR ''/'' \<notin> set ''IM''" by simp
  have lo: "day_1000_01_01 \<le> 736724" by (simp add: day_1000_01_01_def)
  have hi: "736725 < day_9999_12_31" by (simp add: day_9999_12_31_def)
  have days: "[736724..<Suc 736725] = [736724, 736725]"
    by (simp add: upt_rec)
  have other: "''IM_2018-02-02_contacts.txt'' \<notin>
      (\<lambda>d. ''IM'' @ ''_'' @ fmt_date d @ ''_contacts.txt'') ` set [736724, 736725]"
    by (simp add: fmt_date_ex)
  from download_contacts_days [OF ty lo hi surjective_pairing days [symmetric], of ex_env ex_world] other
  show ?thesis
    by (simp add: fmt_date_ex ex_env_def ex_world_def All_less_Suc)
qed

theorem download_contacts_last_day_counterexample:
  "fmt_date day_9999_12_31 = ''9999-12-31'' \<and>
   [day_9999_12_31..<Suc day_9999_12_31] = [day_9999_12_31] \<and>
   download_contacts ex_env ''IM'' (Some day_9999_12_31) (Some day_9999_12_31) ex_world =
     (Some OverflowError, ex_world) \<and>
   remote_calls ex_world = [] \<and> fs ex_world = []"
  by (simp add: fmt_date_bounds download_contacts_def generate_date_range_def download_day_overflow
      ex_world_def)

section \<open>Properties of the reconcilers and of \<^verbatim>\<open>parse_contacts_file\<close>\<close>

lemma basenames_search_path:
  assumes "\<forall>b \<in> set (map fst (fs w)). CHR ''/'' \<notin> set b"
  shows "map os_path_basename (search_path d like w) =
           filter (\<lambda>b. list_ex (\<lambda>r. re_match r b) like) (map fst (fs w))"
proof -
  have "map os_path_basename (map (os_path_join d) bs) = bs"
    if "\<forall>b \<in> set bs. CHR ''/'' \<notin> set b" for bs
    using that by (induction bs) (simp_all add: basename_join)
  moreover have "\<forall>b \<in> set (filter (\<lambda>b. list_ex (\<lambda>r. re_match r b) like) (map fst (fs w))).
                   CHR ''/'' \<notin> set b"
    using assms by auto
  ultimately show ?thesis by (simp only: search_path_def)
qed

lemma row_get_Inr: "row_get d k = Inr v \<longleftrightarrow> map_of d k = Some v"
  by (simp add: row_get_def split: option.splits)

lemma project_row_length: "project_row cols d = Inr vs \<Longrightarrow> length vs = length cols"
  by (induction cols arbitrary: vs) (auto split: sum.splits)

lemma project_row_lookup:
  "project_row cols d = Inr vs \<Longrightarrow> k \<in> set cols \<Longrightarrow> map_of (zip cols vs) k = map_of d k"
proof (induction cols arbitrary: vs)
  case Nil
  then show ?case by simp
next
  case (Cons key keys)
  from Cons.prems(1) obtain v vs' where v: "row_get d key = Inr v"
    and vs': "project_row keys d = Inr vs'" and vs: "vs = v # vs'"
    by (auto split: sum.splits)
  show ?case
  proof (cases "k = key")
    case True
    with v vs show ?thesis by (simp add: row_get_Inr)
  next
    case False
    with Cons.prems(2) have "k \<in> set keys" by simp
    from Cons.IH [OF vs' this] False vs show ?thesis by simp
  qed
qed

lemma project_row_absent:
  "project_row cols d = Inr vs \<Longrightarrow> k \<notin> set cols \<Longrightarrow> map_of (zip cols vs) k = None"
  by (auto simp: map_of_zip_is_None dest: project_row_length)

lemma project_row_ok:
  "set cols \<subseteq> fst ` set d \<Longrightarrow> \<exists>vs. project_row cols d = Inr vs"
proof (induction cols)
  case Nil
  show ?case by simp
next
  case (Cons key keys)
  then obtain vs where "project_row keys d = Inr vs" by auto
  moreover from Cons.prems obtain b where "(key, b) \<in> set d" by auto
  from weak_map_of_SomeI [OF this] obtain v where "map_of d key = Some v" by blast
  ultimately show ?case by (simp add: row_get_def)
qed

lemma project_rows_nth:
  "project_rows cols ds = Inr vss \<Longrightarrow>
     length vss = length ds \<and> (\<forall>i < length ds. project_row cols (ds ! i) = Inr (vss ! i))"
proof (induction ds arbitrary: vss)
  case Nil
  then show ?case by simp
next
  case (Cons d ds)
  from Cons.prems obtain vs vss' where vs: "project_row cols d = Inr vs"
    and vss': "project_rows cols ds = Inr vss'" and e: "vss = vs # vss'"
    by (auto split: sum.splits)
  from Cons.IH [OF vss'] vs e show ?case by (auto simp: nth_Cons split: nat.splits)
qed

lemma project_rows_ok:
  "\<forall>d \<in> set ds. set cols \<subseteq> fst ` set d \<Longrightarrow> \<exists>vss. project_rows cols ds = Inr vss"
proof (induction ds)
  case Nil
  show ?case by simp
next
  case (Cons d ds)
  then obtain vss where "project_rows cols ds = Inr vss" by auto
  moreover from Cons.prems project_row_ok [of cols d] obtain vs where "project_row cols d = Inr vs"
    by auto
  ultimately show ?case by simp
qed

lemma keys_dict_set: "fst ` set (dict_set d k v) = insert k (fst ` set d)"
  by (induction d) force+

lemma dict_set_new: "k \<notin> fst ` set d \<Longrightarrow> dict_set d k v = d @ [(k, v)]"
  by (induction d) auto

lemma keys_order_dict_set:
  "map fst (dict_set d k v) = map fst d @ filter (\<lambda>k. k \<notin> fst ` set d) [k]"
  by (induction d) force+

lemma keys_order_parse_contact:
  "map fst (parse_contact e it base c) =
     map fst (tf_contacts e c) @
       filter (\<lambda>k. k \<notin> fst ` set (tf_contacts e c))
              [''interaction_type'', ''transcript_downloaded'', ''load_file'']"
  by (simp add: parse_contact_def Let_def keys_order_dict_set keys_dict_set)

lemma map_of_parse_contact:
  "map_of (parse_contact e it base c) =
     (map_of (tf_contacts e c))(''interaction_type'' \<mapsto> SStr it,
        ''transcript_downloaded'' \<mapsto> SBool False, ''load_file'' \<mapsto> SStr base)"
  by (simp add: parse_contact_def Let_def map_of_dict_set)

lemma keys_parse_contact:
  "fst ` set (parse_contact e it base c) =
     fst ` set (tf_contacts e c) \<union> {''interaction_type'', ''transcript_downloaded'', ''load_file''}"
  by (auto simp: parse_contact_def Let_def keys_dict_set)

lemma parse_contact_append:
  "fst ` set (tf_contacts e c) \<inter> {''interaction_type'', ''transcript_downloaded'', ''load_file''} = {} \<Longrightarrow>
   parse_contact e it base c =
     tf_contacts e c @ [(''interaction_type'', SStr it), (''transcript_downloaded'', SBool False),
                        (''load_file'', SStr base)]"
  by (simp add: parse_contact_def Let_def dict_set_new keys_dict_set)

lemma read_jason_log [simp]: "read_jason e f (log_add l m a w) = read_jason e f w"
  by (simp add: read_jason_def Let_def)

lemma postgrez_load_contacts [simp]:
  "contacts_tbl (postgrez_load Contacts rows cols w) = contacts_tbl w @ map (zip cols) rows"
  "transcripts_tbl (postgrez_load Contacts rows cols w) = transcripts_tbl w"
  "enhanced_tbl (postgrez_load Contacts rows cols w) = enhanced_tbl w"
  by (simp_all add: postgrez_load_def Let_def)

lemma postgrez_load_transcripts [simp]:
  "contacts_tbl (postgrez_load Transcripts rows cols w) = contacts_tbl w"
  "transcripts_tbl (postgrez_load Transcripts rows cols w) = transcripts_tbl w @ map (zip cols) rows"
  "enhanced_tbl (postgrez_load Transcripts rows cols w) = enhanced_tbl w"
  by (simp_all add: postgrez_load_def Let_def)

lemma postgrez_load_enhanced [simp]:
  "contacts_tbl (postgrez_load Enhanced rows cols w) = contacts_tbl w"
  "transcripts_tbl (postgrez_load Enhanced rows cols w) = transcripts_tbl w"
  "enhanced_tbl (postgrez_load Enhanced rows cols w) = enhanced_tbl w @ map (zip cols) rows"
  by (simp_all add: postgrez_load_def Let_def)

lemma postgrez_load_frame [simp]:
  "fs (postgrez_load t rows cols w) = fs w"
  "remote_calls (postgrez_load t rows cols w) = remote_calls w"
  "log_out (postgrez_load t rows cols w) = log_out w"
  "store_calls (postgrez_load t rows cols w) = store_calls w @ [PostgrezLoad t (length rows)]"
  by (cases t; simp add: postgrez_load_def Let_def)+

text \<open>What a successful \<^verbatim>\<open>parse_contacts_file\<close> appends.\<close>

lemma parse_contacts_file_rows:
  assumes rd: "read_jason e filename w = Inr contacts"
    and tr: "truthy contacts"
    and it: "py_iter contacts = Inr cs"
    and run: "parse_contacts_file e filename w = (None, w')"
  shows "\<exists>vss. cs \<noteq> [] \<and>
           project_rows (map fst (parse_contact e (split_head ''_'' (os_path_basename filename))
                                     (os_path_basename filename) (hd cs)))
             (map (parse_contact e (split_head ''_'' (os_path_basename filename))
                     (os_path_basename filename)) cs) = Inr vss \<and>
           contacts_tbl w' = contacts_tbl w @
             map (zip (map fst (parse_contact e (split_head ''_'' (os_path_basename filename))
                                     (os_path_basename filename) (hd cs)))) vss"
proof (cases cs)
  case Nil
  with rd tr it run show ?thesis by (simp add: parse_contacts_file_def Let_def)
next
  case (Cons c cs')
  with rd tr it run show ?thesis
    by (auto simp: parse_contacts_file_def Let_def split: sum.splits)
qed

lemma parse_contacts_file_frame:
  "transcripts_tbl (snd (parse_contacts_file e f w)) = transcripts_tbl w"
  "enhanced_tbl (snd (parse_contacts_file e f w)) = enhanced_tbl w"
  "fs (snd (parse_contacts_file e f w)) = fs w"
  "remote_calls (snd (parse_contacts_file e f w)) = remote_calls w"
  "fst (parse_contacts_file e f w) \<noteq> None \<Longrightarrow>
     contacts_tbl (snd (parse_contacts_file e f w)) = contacts_tbl w"
  by (auto simp: parse_contacts_file_def Let_def split: sum.splits list.splits)

lemma truthy_iter_nonempty: "truthy c \<Longrightarrow> py_iter c = Inr cs \<Longrightarrow> cs \<noteq> []"
  by (cases c rule: truthy.cases) auto

lemma parse_contacts_file_loaded:
  assumes rd: "read_jason e filename w = Inr contacts"
    and tr: "truthy contacts"
    and it: "py_iter contacts = Inr cs"
    and run: "parse_contacts_file e filename w = (None, w')"
  shows "length (contacts_tbl w') = length (contacts_tbl w) + length cs"
    and "i < length cs \<Longrightarrow>
         map_of (contacts_tbl w' ! (length (contacts_tbl w) + i)) k =
           (if k \<in> fst ` set (parse_contact e (split_head ''_'' (os_path_basename filename))
                                  (os_path_basename filename) (hd cs))
            then map_of (parse_contact e (split_head ''_'' (os_path_basename filename))
                           (os_path_basename filename) (cs ! i)) k
            else None)"
proof -
  let ?pc = "parse_contact e (split_head ''_'' (os_path_basename filename)) (os_path_basename filename)"
  let ?colsL = "map fst (?pc (hd cs))"
  from parse_contacts_file_rows [OF rd tr it run] obtain vss where
    vss: "project_rows ?colsL (map ?pc cs) = Inr vss"
    and tbl: "contacts_tbl w' = contacts_tbl w @ map (zip ?colsL) vss"
    by auto
  from project_rows_nth [OF vss] have len: "length vss = length cs"
    and nth: "\<forall>i < length cs. project_row ?colsL (?pc (cs ! i)) = Inr (vss ! i)"
    by simp_all
  show "length (contacts_tbl w') = length (contacts_tbl w) + length cs"
    by (simp add: tbl len)
  assume i: "i < length cs"
  then have row: "contacts_tbl w' ! (length (contacts_tbl w) + i) = zip ?colsL (vss ! i)"
    using len by (simp add: tbl nth_append)
  show "map_of (contacts_tbl w' ! (length (contacts_tbl w) + i)) k =
           (if k \<in> fst ` set (?pc (hd cs)) then map_of (?pc (cs ! i)) k else None)"
  proof (cases "k \<in> fst ` set (?pc (hd cs))")
    case True
    then have "k \<in> set ?colsL" by simp
    from project_row_lookup [OF nth [rule_format, OF i] this] True show ?thesis
      by (simp add: row)
  next
    case False
    then have "k \<notin> set ?colsL" by simp
    from project_row_absent [OF nth [rule_format, OF i] this] False show ?thesis
      by (simp add: row)
  qed
qed

lemma parse_contacts_file_marks_loaded:
  assumes rd: "read_jason e filename w = Inr contacts"
    and tr: "truthy contacts"
    and it: "py_iter contacts = Inr cs"
    and run: "parse_contacts_file e filename w = (None, w')"
  shows "SStr (os_path_basename filename) \<in> set (map (column ''load_file'') (contacts_tbl w'))"
proof -
  from truthy_iter_nonempty [OF tr it] have i: "0 < length cs" by simp
  let ?r = "contacts_tbl w' ! (length (contacts_tbl w) + 0)"
  from parse_contacts_file_loaded(2) [OF rd tr it run i, of "''load_file''"]
  have "map_of ?r ''load_file'' = Some (SStr (os_path_basename filename))"
    by (simp add: keys_parse_contact map_of_parse_contact)
  then have eq: "column ''load_file'' ?r = SStr (os_path_basename filename)"
    by (simp add: column_def)
  from parse_contacts_file_loaded(1) [OF rd tr it run] i
  have "length (contacts_tbl w) + 0 < length (contacts_tbl w')" by simp
  then have "?r \<in> set (contacts_tbl w')" by (rule nth_mem)
  then have "column ''load_file'' ?r \<in> column ''load_file'' ` set (contacts_tbl w')"
    by (rule imageI)
  then show ?thesis by (simp only: eq set_map)
qed

text \<open>
  C7, as amended. \<^verbatim>\<open>parse_contacts_file\<close> gives each contact to the transform alone
  and then sets three fields over the transform's output: \<^verbatim>\<open>interaction_type\<close>, the
  part of the artifact's base name before its first underscore,
  \<^verbatim>\<open>transcript_downloaded\<close>, false, and \<^verbatim>\<open>load_file\<close>, the base name. When the
  transform gives no field of one of the three names, they are exactly three more fields,
  after the transform's own; a field that the transform gives under one of the three
  names keeps its place among the transform's fields and has its value replaced. When
  the load happens, the row of the \<open>i\<close>-th contact holds the three values, and under
  every other column of the first record the value that the transform gave for the
  \<open>i\<close>-th contact. The load happens when every record has the fields of the first;
  otherwise nothing is loaded.
\<close>

theorem parse_contacts_file_layers:
  assumes rd: "read_jason e filename w = Inr contacts"
    and tr: "truthy contacts"
    and it: "py_iter contacts = Inr cs"
    and run: "parse_contacts_file e filename w = (r, w')"
    and base: "base_file = os_path_basename filename"
    and ty: "interaction_type = split_head ''_'' base_file"
    and cols: "columns = fst ` set (parse_contact e interaction_type base_file (hd cs))"
  shows "(\<forall>c. map_of (parse_contact e interaction_type base_file c) =
               (map_of (tf_contacts e c))(''interaction_type'' \<mapsto> SStr interaction_type,
                  ''transcript_downloaded'' \<mapsto> SBool False, ''load_file'' \<mapsto> SStr base_file)) \<and>
         (\<forall>c. map fst (parse_contact e interaction_type base_file c) =
               map fst (tf_contacts e c) @
                 filter (\<lambda>k. k \<notin> fst ` set (tf_contacts e c))
                        [''interaction_type'', ''transcript_downloaded'', ''load_file'']) \<and>
         (\<forall>c. fst ` set (tf_contacts e c) \<inter>
                 {''interaction_type'', ''transcript_downloaded'', ''load_file''} = {} \<longrightarrow>
               parse_contact e interaction_type base_file c =
                 tf_contacts e c @ [(''interaction_type'', SStr interaction_type),
                                    (''transcript_downloaded'', SBool False),
                                    (''load_file'', SStr base_file)]) \<and>
         (r = None \<longrightarrow>
            length (contacts_tbl w') = length (contacts_tbl w) + length cs \<and>
            (\<forall>i < length cs.
               map_of (contacts_tbl w' ! (length (contacts_tbl w) + i)) ''interaction_type'' =
                 Some (SStr interaction_type) \<and>
               map_of (contacts_tbl w' ! (length (contacts_tbl w) + i)) ''transcript_downloaded'' =
                 Some (SBool False) \<and>
               map_of (contacts_tbl w' ! (length (contacts_tbl w) + i)) ''load_file'' =
                 Some (SStr base_file) \<and>
               (\<forall>k. k \<notin> {''interaction_type'', ''transcript_downloaded'', ''load_file''} \<longrightarrow>
                  map_of (contacts_tbl w' ! (length (contacts_tbl w) + i)) k =
                    (if k \<in> columns then map_of (tf_contacts e (cs ! i)) k else None)))) \<and>
         (r \<noteq> None \<longrightarrow> contacts_tbl w' = contacts_tbl w) \<and>
         ((\<forall>c \<in> set cs. fst ` set (tf_contacts e (hd cs)) \<subseteq> fst ` set (tf_contacts e c)) \<longrightarrow>
            r = None)"
proof -
  let ?pc = "parse_contact e interaction_type base_file"
  let ?colsL = "map fst (?pc (hd cs))"
  have three: "{''interaction_type'', ''transcript_downloaded'', ''load_file''} \<subseteq> columns"
    by (auto simp: cols keys_parse_contact)
  have A: "\<forall>c. map_of (?pc c) =
               (map_of (tf_contacts e c))(''interaction_type'' \<mapsto> SStr interaction_type,
                  ''transcript_downloaded'' \<mapsto> SBool False, ''load_file'' \<mapsto> SStr base_file)"
    by (simp add: map_of_parse_contact)
  have A2: "\<forall>c. map fst (?pc c) =
               map fst (tf_contacts e c) @
                 filter (\<lambda>k. k \<notin> fst ` set (tf_contacts e c))
                        [''interaction_type'', ''transcript_downloaded'', ''load_file'']"
    by (simp only: keys_order_parse_contact) simp
  have B: "\<forall>c. fst ` set (tf_contacts e c) \<inter>
                 {''interaction_type'', ''transcript_downloaded'', ''load_file''} = {} \<longrightarrow>
               ?pc c = tf_contacts e c @ [(''interaction_type'', SStr interaction_type),
                                    (''transcript_downloaded'', SBool False),
                                    (''load_file'', SStr base_file)]"
    by (simp add: parse_contact_append)
  have C: "length (contacts_tbl w') = length (contacts_tbl w) + length cs \<and>
            (\<forall>i < length cs.
               map_of (contacts_tbl w' ! (length (contacts_tbl w) + i)) ''interaction_type'' =
                 Some (SStr interaction_type) \<and>
               map_of (contacts_tbl w' ! (length (contacts_tbl w) + i)) ''transcript_downloaded'' =
                 Some (SBool False) \<and>
               map_of (contacts_tbl w' ! (length (contacts_tbl w) + i)) ''load_file'' =
                 Some (SStr base_file) \<and>
               (\<forall>k. k \<notin> {''interaction_type'', ''transcript_downloaded'', ''load_file''} \<longrightarrow>
                  map_of (contacts_tbl w' ! (length (contacts_tbl w) + i)) k =
                    (if k \<in> columns then map_of (tf_contacts e (cs ! i)) k else None)))"
    if ok: "r = None"
  proof -
    from run ok have run': "parse_contacts_file e filename w = (None, w')" by simp
    note L = parse_contacts_file_loaded [OF rd tr it run']
    have look: "map_of (contacts_tbl w' ! (length (contacts_tbl w) + i)) k =
                  (if k \<in> columns then map_of (?pc (cs ! i)) k else None)"
      if i: "i < length cs" for i k
      using L(2) [OF i, of k] by (simp add: cols base ty)
    show ?thesis
      using three L(1) by (auto simp: look A)
  qed
  have D: "contacts_tbl w' = contacts_tbl w" if "r \<noteq> None"
    using that parse_contacts_file_frame(5) [of e filename w] run by simp
  have E: "r = None"
    if hom: "\<forall>c \<in> set cs. fst ` set (tf_contacts e (hd cs)) \<subseteq> fst ` set (tf_contacts e c)"
  proof -
    have "\<forall>d \<in> set (map ?pc cs). set ?colsL \<subseteq> fst ` set d"
      using hom by (auto simp: keys_parse_contact)
    from project_rows_ok [OF this] obtain vss where
      vss: "project_rows ?colsL (map ?pc cs) = Inr vss" by blast
    show ?thesis
    proof (cases cs)
      case Nil
      with truthy_iter_nonempty [OF tr it] show ?thesis by simp
    next
      case (Cons c cs')
      with vss rd tr it run show ?thesis
        by (simp add: parse_contacts_file_def Let_def base ty)
    qed
  qed
  from A A2 B C D E show ?thesis by blast
qed

lemma py_int_cases: "py_int s = Inl ValueError \<or> (\<exists>n. py_int s = Inr n)"
  by (simp add: py_int_def Let_def split: option.splits)

lemma transcripts_loop_ok:
  assumes "\<forall>b \<in> set bs. CHR ''/'' \<notin> set b \<and> (\<exists>n. py_int (split_head ''_data.txt'' b) = Inr n)"
  shows "transcripts_loop loaded bs =
           Inr (filter (\<lambda>b. \<forall>n. py_int (split_head ''_data.txt'' b) = Inr n \<longrightarrow>
                               \<not> list_ex (\<lambda>v. py_eq_int n (PS v)) loaded) bs)"
  using assms
proof (induction bs)
  case Nil
  show ?case by simp
next
  case (Cons b bs)
  then obtain n where n: "py_int (split_head ''_data.txt'' b) = Inr n" by auto
  from Cons.prems have b: "os_path_basename b = b" by (simp add: basename_plain)
  from Cons have "transcripts_loop loaded bs =
           Inr (filter (\<lambda>b. \<forall>n. py_int (split_head ''_data.txt'' b) = Inr n \<longrightarrow>
                               \<not> list_ex (\<lambda>v. py_eq_int n (PS v)) loaded) bs)" by simp
  with n b show ?case by (simp add: Let_def)
qed

lemma transcripts_loop_err:
  assumes "\<forall>b \<in> set bs. CHR ''/'' \<notin> set b"
    and "\<exists>b \<in> set bs. py_int (split_head ''_data.txt'' b) = Inl ValueError"
  shows "transcripts_loop loaded bs = Inl ValueError"
  using assms
proof (induction bs)
  case Nil
  then show ?case by simp
next
  case (Cons b bs)
  from Cons.prems have b: "os_path_basename b = b" by (simp add: basename_plain)
  show ?case
  proof (cases "py_int (split_head ''_data.txt'' b)")
    case (Inl err)
    with py_int_cases [of "split_head ''_data.txt'' b"] have "err = ValueError" by auto
    with Inl b show ?thesis by (simp add: Let_def)
  next
    case (Inr n)
    with Cons.prems have "\<exists>b \<in> set bs. py_int (split_head ''_data.txt'' b) = Inl ValueError"
      by auto
    with Cons have "transcripts_loop loaded bs = Inl ValueError" by simp
    with Inr b show ?thesis by (simp add: Let_def)
  qed
qed

text \<open>
  C6, as amended. With the files of the output directory under plain ASCII names: when the
  part before \<^verbatim>\<open>_data.txt\<close> of every file that matches \<^verbatim>\<open>^\d*_data.txt\<close> reads as
  an integer, \<^verbatim>\<open>get_transcripts_to_load\<close> returns exactly the matching files, in the
  order of the listing, whose integer equals no \<^verbatim>\<open>contact_id\<close> persisted in the
  \<^verbatim>\<open>transcripts\<close> relation, and logs their number; when some matching file has no such
  integer, it raises \<^verbatim>\<open>ValueError\<close> and returns nothing.
\<close>

theorem get_transcripts_to_load_unpersisted:
  assumes ns: "\<forall>b \<in> set (map fst (fs w)). CHR ''/'' \<notin> set b"
    and asc: "\<forall>b \<in> set (map fst (fs w)). is_ascii b"
    and m: "matching = filter (re_match transcripts_reg) (map fst (fs w))"
    and run: "get_transcripts_to_load e w = (r, w')"
  shows "((\<forall>b \<in> set matching. \<exists>n. py_int (split_head ''_data.txt'' b) = Inr n) \<longrightarrow>
            r = Inr (filter (\<lambda>b. \<forall>n. py_int (split_head ''_data.txt'' b) = Inr n \<longrightarrow>
                                   \<not> list_ex (\<lambda>v. py_eq_int n (PS v))
                                        (map (column ''contact_id'') (transcripts_tbl w)))
                           matching) \<and>
            (\<forall>l. r = Inr l \<longrightarrow>
               w' = log_add INFO ''%s transcripts to parse and load'' (ArgNat (length l)) w)) \<and>
         ((\<exists>b \<in> set matching. py_int (split_head ''_data.txt'' b) = Inl ValueError) \<longrightarrow>
            r = Inl ValueError \<and> w' = w)"
proof -
  have names: "map os_path_basename (search_path (ICESCAPE_OUTPUT_DIR e) [transcripts_reg] w) = matching"
    by (simp add: basenames_search_path [OF ns] m)
  have nsm: "\<forall>b \<in> set matching. CHR ''/'' \<notin> set b"
    using ns by (auto simp: m)
  have ex: "list_ex P (loaded_contacts w) = list_ex P (map (column ''contact_id'') (transcripts_tbl w))"
    for P by (simp add: loaded_contacts_def list_ex_iff)
  have A: "r = Inr (filter (\<lambda>b. \<forall>n. py_int (split_head ''_data.txt'' b) = Inr n \<longrightarrow>
                                   \<not> list_ex (\<lambda>v. py_eq_int n (PS v))
                                        (map (column ''contact_id'') (transcripts_tbl w)))
                           matching) \<and>
            (\<forall>l. r = Inr l \<longrightarrow>
               w' = log_add INFO ''%s transcripts to parse and load'' (ArgNat (length l)) w)"
    if ok: "\<forall>b \<in> set matching. \<exists>n. py_int (split_head ''_data.txt'' b) = Inr n"
  proof -
    from nsm ok have "\<forall>b \<in> set matching. CHR ''/'' \<notin> set b \<and>
        (\<exists>n. py_int (split_head ''_data.txt'' b) = Inr n)" by blast
    from transcripts_loop_ok [OF this, of "loaded_contacts w"] run show ?thesis
      by (auto simp: get_transcripts_to_load_def Let_def names ex)
  qed
  have B: "r = Inl ValueError \<and> w' = w"
    if bad: "\<exists>b \<in> set matching. py_int (split_head ''_data.txt'' b) = Inl ValueError"
    using transcripts_loop_err [OF nsm bad, of "loaded_contacts w"] run
    by (auto simp: get_transcripts_to_load_def Let_def names)
  from A B show ?thesis by blast
qed

lemma get_contacts_to_load_set:
  assumes "\<forall>b \<in> set (map fst (fs w)). CHR ''/'' \<notin> set b"
  shows "set (get_contacts_to_load e w) =
           {b \<in> set (map fst (fs w)). re_match contacts_reg b}
             - {f. SStr f \<in> set (map (column ''load_file'') (contacts_tbl w))}"
proof -
  have r: "get_contacts_to_load e w =
      remdups (filter (\<lambda>f. SStr f \<notin> set (loaded_files w))
                 (filter (\<lambda>b. list_ex (\<lambda>r. re_match r b) [contacts_reg]) (map fst (fs w))))"
    by (simp only: get_contacts_to_load_def Let_def basenames_search_path [OF assms])
  show ?thesis unfolding r by (auto simp: loaded_files_def)
qed

text \<open>
  C2. With the files of the output directory under plain ASCII names (the names the module
  gives its artifacts are), \<^verbatim>\<open>get_contacts_to_load\<close>
  returns exactly the files whose name matches the contacts pattern, less the
  \<^verbatim>\<open>load_file\<close> values already persisted. The result depends on the directory and on the
  \<^verbatim>\<open>contacts\<close> relation only, so a second run with neither changed returns the same; a
  name that is persisted as a \<^verbatim>\<open>load_file\<close> value is not returned, and once
  \<^verbatim>\<open>parse_contacts_file\<close> has loaded the records of an artifact, that artifact is not
  returned by the next run.
\<close>

theorem get_contacts_to_load_difference:
  assumes ns: "\<forall>b \<in> set (map fst (fs w)). CHR ''/'' \<notin> set b"
    and asc: "\<forall>b \<in> set (map fst (fs w)). is_ascii b"
  shows "set (get_contacts_to_load e w) =
           {b \<in> set (map fst (fs w)). re_match contacts_reg b}
             - {f. SStr f \<in> set (map (column ''load_file'') (contacts_tbl w))} \<and>
         (\<forall>w2. fs w2 = fs w \<and> contacts_tbl w2 = contacts_tbl w \<longrightarrow>
               get_contacts_to_load e w2 = get_contacts_to_load e w) \<and>
         (\<forall>f. SStr f \<in> set (map (column ''load_file'') (contacts_tbl w)) \<longrightarrow>
               f \<notin> set (get_contacts_to_load e w)) \<and>
         (\<forall>f contacts cs w2.
            CHR ''/'' \<notin> set f \<and>
            read_jason e (os_path_join (ICESCAPE_OUTPUT_DIR e) f) w = Inr contacts \<and>
            truthy contacts \<and> py_iter contacts = Inr cs \<and>
            parse_contacts_file e (os_path_join (ICESCAPE_OUTPUT_DIR e) f) w = (None, w2) \<longrightarrow>
            f \<notin> set (get_contacts_to_load e w2))"
proof -
  note 1 = get_contacts_to_load_set [OF ns]
  have 2: "get_contacts_to_load e w2 = get_contacts_to_load e w"
    if "fs w2 = fs w \<and> contacts_tbl w2 = contacts_tbl w" for w2
    using that by (simp add: get_contacts_to_load_def search_path_def loaded_files_def)
  from 1 have 3: "f \<notin> set (get_contacts_to_load e w)"
    if "SStr f \<in> set (map (column ''load_file'') (contacts_tbl w))" for f
    using that by blast
  have 4: "f \<notin> set (get_contacts_to_load e w2)"
    if f: "CHR ''/'' \<notin> set f"
      and rd: "read_jason e (os_path_join (ICESCAPE_OUTPUT_DIR e) f) w = Inr contacts"
      and tr: "truthy contacts" and it: "py_iter contacts = Inr cs"
      and run: "parse_contacts_file e (os_path_join (ICESCAPE_OUTPUT_DIR e) f) w = (None, w2)"
    for f contacts cs w2
  proof -
    from parse_contacts_file_frame(3) [of e "os_path_join (ICESCAPE_OUTPUT_DIR e) f" w] run
    have "fs w2 = fs w" by simp
    with ns have ns2: "\<forall>b \<in> set (map fst (fs w2)). CHR ''/'' \<notin> set b" by simp
    from parse_contacts_file_marks_loaded [OF rd tr it run]
    have "SStr f \<in> set (map (column ''load_file'') (contacts_tbl w2))"
      by (simp only: basename_join [OF f])
    with get_contacts_to_load_set [OF ns2, of e] show ?thesis by blast
  qed
  from 1 2 3 4 show ?thesis by blast
qed

lemma re_match_ex:
  "re_match contacts_reg ''IM_2018-01-31_contacts.txt''"
  "re_match contacts_reg ''Voice_2018-01-31_contacts.txt''"
  "\<not> re_match contacts_reg ''7_data.txt''"
  "\<not> re_match contacts_reg ''8_data.txt''"
  "re_match transcripts_reg ''7_data.txt''"
  "re_match transcripts_reg ''8_data.txt''"
  "re_match transcripts_reg ''_data.txt''"
  "\<not> re_match transcripts_reg ''IM_2018-01-31_contacts.txt''"
  "\<not> re_match transcripts_reg ''Voice_2018-01-31_contacts.txt''"
  by (simp_all add: contacts_reg_def transcripts_reg_def is_word_def is_digit_def numeral_eq_Suc)

lemma ex_paths:
  "os_path_join ''/data'' ''IM_2018-01-31_contacts.txt'' = ''/data/IM_2018-01-31_contacts.txt''"
  "os_path_basename ''/data/IM_2018-01-31_contacts.txt'' = ''IM_2018-01-31_contacts.txt''"
  "os_path_join ''/data'' ''7_data.txt'' = ''/data/7_data.txt''"
  "os_path_basename ''/data/7_data.txt'' = ''7_data.txt''"
  "os_path_join ''/data'' ''8_data.txt'' = ''/data/8_data.txt''"
  "os_path_basename ''/data/8_data.txt'' = ''8_data.txt''"
  by (simp_all add: os_path_join_def os_path_basename_def)

lemma ex_read_contacts:
  "read_jason ex_env ''/data/IM_2018-01-31_contacts.txt'' ex_disk = Inr (PList [ex_contact 1, ex_contact 2])"
  by (simp add: read_jason_def ex_env_def ex_disk_def ex_paths)

lemma ex_split: "split_head ''_'' ''IM_2018-01-31_contacts.txt'' = ''IM''"
  by simp

lemma ex_parse_contact: "parse_contact ex_env ''IM'' ''IM_2018-01-31_contacts.txt'' (ex_contact n) =
   [(''contact_id'', SInt n), (''agent_id'', SInt 7), (''interaction_type'', SStr ''IM''),
                 (''transcript_downloaded'', SBool False),
                 (''load_file'', SStr ''IM_2018-01-31_contacts.txt'')]"
  by (simp add: parse_contact_def ex_env_def ex_contact_def)

lemma ex_parse_contacts:
  "parse_contacts_file ex_env ''/data/IM_2018-01-31_contacts.txt'' ex_disk =
     (None, ex_disk\<lparr>contacts_tbl :=
               [[(''contact_id'', SInt 1), (''agent_id'', SInt 7), (''interaction_type'', SStr ''IM''),
                 (''transcript_downloaded'', SBool False),
                 (''load_file'', SStr ''IM_2018-01-31_contacts.txt'')],
                [(''contact_id'', SInt 2), (''agent_id'', SInt 7), (''interaction_type'', SStr ''IM''),
                 (''transcript_downloaded'', SBool False),
                 (''load_file'', SStr ''IM_2018-01-31_contacts.txt'')]],
             store_calls := [PostgrezLoad Contacts 2],
             log_out := [(INFO, ''Parsing contact file %s'', ArgStr ''/data/IM_2018-01-31_contacts.txt'')]\<rparr>)"
proof -
  have t: "contacts_tbl ex_disk = []" "log_out ex_disk = []" "store_calls ex_disk = []"
    by (simp_all add: ex_disk_def)
  show ?thesis
    unfolding parse_contacts_file_def Let_def read_jason_log ex_read_contacts ex_paths ex_split
    by (simp add: ex_parse_contact row_get_def postgrez_load_def log_add_def t)
qed

lemma ex_disk_no_slash: "\<forall>b \<in> set (map fst (fs ex_disk)). CHR ''/'' \<notin> set b"
  by (simp add: ex_disk_def)

lemma ex_disk_ascii: "\<forall>b \<in> set (map fst (fs ex_disk)). is_ascii b"
  by (simp add: ex_disk_def is_ascii_def)

theorem get_contacts_to_load_difference_witness:
  "set (get_contacts_to_load ex_env ex_disk) =
     {''IM_2018-01-31_contacts.txt'', ''Voice_2018-01-31_contacts.txt''} \<and>
   ''IM_2018-01-31_contacts.txt'' \<notin>
     set (get_contacts_to_load ex_env
            (snd (parse_contacts_file ex_env ''/data/IM_2018-01-31_contacts.txt'' ex_disk)))"
proof -
  have d: "ICESCAPE_OUTPUT_DIR ex_env = ''/data''" by (simp add: ex_env_def)
  have names: "{b \<in> set (map fst (fs ex_disk)). re_match contacts_reg b} =
      {''IM_2018-01-31_contacts.txt'', ''Voice_2018-01-31_contacts.txt''}"
  proof -
    have "filter (re_match contacts_reg) (map fst (fs ex_disk)) =
        [''IM_2018-01-31_contacts.txt'', ''Voice_2018-01-31_contacts.txt'']"
      by (simp add: ex_disk_def re_match_ex)
    then have "set (filter (re_match contacts_reg) (map fst (fs ex_disk))) =
        {''IM_2018-01-31_contacts.txt'', ''Voice_2018-01-31_contacts.txt''}"
      by (simp only: list.set)
    then show ?thesis by (simp only: set_filter)
  qed
  have none: "{f. SStr f \<in> set (map (column ''load_file'') (contacts_tbl ex_disk))} = {}"
    by (simp add: ex_disk_def)
  have run: "parse_contacts_file ex_env ''/data/IM_2018-01-31_contacts.txt'' ex_disk =
      (None, snd (parse_contacts_file ex_env ''/data/IM_2018-01-31_contacts.txt'' ex_disk))"
    by (simp add: ex_parse_contacts)
  note T = get_contacts_to_load_difference [OF ex_disk_no_slash ex_disk_ascii, of ex_env]
  have 1: "set (get_contacts_to_load ex_env ex_disk) =
      {''IM_2018-01-31_contacts.txt'', ''Voice_2018-01-31_contacts.txt''}"
    using T [THEN conjunct1] unfolding names none by (simp only: Diff_empty)
  have prem: "CHR ''/'' \<notin> set ''IM_2018-01-31_contacts.txt'' \<and>
      read_jason ex_env (os_path_join (ICESCAPE_OUTPUT_DIR ex_env) ''IM_2018-01-31_contacts.txt'') ex_disk =
        Inr (PList [ex_contact 1, ex_contact 2]) \<and>
      truthy (PList [ex_contact 1, ex_contact 2]) \<and>
      py_iter (PList [ex_contact 1, ex_contact 2]) = Inr [ex_contact 1, ex_contact 2] \<and>
      parse_contacts_file ex_env (os_path_join (ICESCAPE_OUTPUT_DIR ex_env) ''IM_2018-01-31_contacts.txt'')
        ex_disk =
        (None, snd (parse_contacts_file ex_env ''/data/IM_2018-01-31_contacts.txt'' ex_disk))"
    unfolding d ex_paths using ex_read_contacts run by simp
  from T [THEN conjunct2, THEN conjunct2, THEN conjunct2, rule_format, OF prem] 1
  show ?thesis by (rule conjI [rotated])
qed

lemma ex_split_head:
  "split_head ''_data.txt'' ''7_data.txt'' = ''7''"
  "split_head ''_data.txt'' ''8_data.txt'' = ''8''"
  "split_head ''_data.txt'' ''_data.txt'' = []"
  by simp_all

lemma ex_py_int_digits:
  "py_int ''7'' = Inr 7" "py_int ''8'' = Inr 8" "py_int [] = Inl ValueError"
  by (simp_all add: py_int_def strip_def is_space_def is_digit_def)

lemma ex_py_int:
  "py_int (split_head ''_data.txt'' ''7_data.txt'') = Inr 7"
  "py_int (split_head ''_data.txt'' ''8_data.txt'') = Inr 8"
  "py_int (split_head ''_data.txt'' ''_data.txt'') = Inl ValueError"
  by (simp_all only: ex_split_head ex_py_int_digits)

lemma ex_matching:
  "filter (re_match transcripts_reg) (map fst (fs ex_disk)) = [''7_data.txt'', ''8_data.txt'']"
  by (simp add: ex_disk_def re_match_ex)

theorem get_transcripts_to_load_unpersisted_witness:
  "fst (get_transcripts_to_load ex_env ex_disk) = Inr [''7_data.txt'']"
proof -
  have ok: "\<forall>b \<in> set [''7_data.txt'', ''8_data.txt'']. \<exists>n. py_int (split_head ''_data.txt'' b) = Inr n"
    by (simp add: ex_split_head ex_py_int_digits)
  have t: "map (column ''contact_id'') (transcripts_tbl ex_disk) = [SInt 8]"
    by (simp add: ex_disk_def column_def)
  from get_transcripts_to_load_unpersisted [OF ex_disk_no_slash ex_disk_ascii ex_matching [symmetric] surjective_pairing,
      of ex_env] ok
  show ?thesis by (simp add: ex_split_head ex_py_int_digits t)
qed

theorem get_transcripts_to_load_counterexample:
  "re_match transcripts_reg ''7_data.txt'' \<and>
   ''7_data.txt'' \<in> set (map fst (fs ex_bad_disk)) \<and>
   py_int (split_head ''_data.txt'' ''7_data.txt'') = Inr 7 \<and>
   \<not> list_ex (\<lambda>v. py_eq_int 7 (PS v)) (map (column ''contact_id'') (transcripts_tbl ex_bad_disk)) \<and>
   re_match transcripts_reg ''_data.txt'' \<and>
   fst (get_transcripts_to_load ex_env ex_bad_disk) = Inl ValueError"
proof -
  have fsb: "map fst (fs ex_bad_disk) =
      [''IM_2018-01-31_contacts.txt'', ''7_data.txt'', ''8_data.txt'', ''Voice_2018-01-31_contacts.txt'',
       ''_data.txt'']"
    by (simp add: ex_bad_disk_def ex_disk_def)
  have sp: "map os_path_basename (search_path (ICESCAPE_OUTPUT_DIR ex_env) [transcripts_reg] ex_bad_disk) =
      [''7_data.txt'', ''8_data.txt'', ''_data.txt'']"
    by (subst basenames_search_path) (simp_all add: fsb re_match_ex)
  have bn: "os_path_basename ''7_data.txt'' = ''7_data.txt''"
    "os_path_basename ''8_data.txt'' = ''8_data.txt''"
    "os_path_basename ''_data.txt'' = ''_data.txt''"
    by (simp_all add: basename_plain)
  have t: "map (column ''contact_id'') (transcripts_tbl ex_bad_disk) = [SInt 8]"
    by (simp add: ex_bad_disk_def ex_disk_def column_def)
  have "fst (get_transcripts_to_load ex_env ex_bad_disk) = Inl ValueError"
    unfolding get_transcripts_to_load_def Let_def sp
    by (simp add: bn ex_split_head ex_py_int_digits)
  then show ?thesis by (simp add: re_match_ex fsb ex_split_head ex_py_int_digits t)
qed

theorem parse_contacts_file_layers_witness:
  "fst (parse_contacts_file ex_env ''/data/IM_2018-01-31_contacts.txt'' ex_disk) = None \<and>
   length (contacts_tbl (snd (parse_contacts_file ex_env ''/data/IM_2018-01-31_contacts.txt'' ex_disk))) = 2 \<and>
   map_of (contacts_tbl (snd (parse_contacts_file ex_env ''/data/IM_2018-01-31_contacts.txt'' ex_disk)) ! 1)
     ''interaction_type'' = Some (SStr ''IM'') \<and>
   map_of (contacts_tbl (snd (parse_contacts_file ex_env ''/data/IM_2018-01-31_contacts.txt'' ex_disk)) ! 1)
     ''transcript_downloaded'' = Some (SBool False) \<and>
   map_of (contacts_tbl (snd (parse_contacts_file ex_env ''/data/IM_2018-01-31_contacts.txt'' ex_disk)) ! 1)
     ''load_file'' = Some (SStr ''IM_2018-01-31_contacts.txt'') \<and>
   map_of (contacts_tbl (snd (parse_contacts_file ex_env ''/data/IM_2018-01-31_contacts.txt'' ex_disk)) ! 1)
     ''contact_id'' = Some (SInt 2)"
proof -
  let ?w' = "snd (parse_contacts_file ex_env ''/data/IM_2018-01-31_contacts.txt'' ex_disk)"
  have run: "parse_contacts_file ex_env ''/data/IM_2018-01-31_contacts.txt'' ex_disk = (None, ?w')"
    by (simp add: ex_parse_contacts)
  have tr: "truthy (PList [ex_contact 1, ex_contact 2])" by simp
  have it: "py_iter (PList [ex_contact 1, ex_contact 2]) = Inr [ex_contact 1, ex_contact 2]" by simp
  have t0: "contacts_tbl ex_disk = []" by (simp add: ex_disk_def)
  have tf: "map_of (tf_contacts ex_env (ex_contact 2)) ''contact_id'' = Some (SInt 2)"
    by (simp add: ex_env_def ex_contact_def)
  have col: "''contact_id'' \<in> fst ` set (parse_contact ex_env ''IM'' ''IM_2018-01-31_contacts.txt''
                 (hd [ex_contact 1, ex_contact 2]))"
    by (simp add: ex_parse_contact)
  note T = parse_contacts_file_layers [OF ex_read_contacts tr it run
      ex_paths(2) [symmetric] ex_split [symmetric] refl]
  from T [THEN conjunct2, THEN conjunct2, THEN conjunct2, THEN conjunct1, rule_format, OF refl]
  have len: "length (contacts_tbl ?w') = length (contacts_tbl ex_disk) + length [ex_contact 1, ex_contact 2]"
    and rows: "\<forall>i<length [ex_contact 1, ex_contact 2].
       map_of (contacts_tbl ?w' ! (length (contacts_tbl ex_disk) + i)) ''interaction_type'' = Some (SStr ''IM'') \<and>
       map_of (contacts_tbl ?w' ! (length (contacts_tbl ex_disk) + i)) ''transcript_downloaded'' = Some (SBool False) \<and>
       map_of (contacts_tbl ?w' ! (length (contacts_tbl ex_disk) + i)) ''load_file'' =
         Some (SStr ''IM_2018-01-31_contacts.txt'') \<and>
       (\<forall>k. k \<notin> {''interaction_type'', ''transcript_downloaded'', ''load_file''} \<longrightarrow>
          map_of (contacts_tbl ?w' ! (length (contacts_tbl ex_disk) + i)) k =
            (if k \<in> fst ` set (parse_contact ex_env ''IM'' ''IM_2018-01-31_contacts.txt''
                                  (hd [ex_contact 1, ex_contact 2]))
             then map_of (tf_contacts ex_env ([ex_contact 1, ex_contact 2] ! i)) k else None))"
    by blast+
  from rows [rule_format, of 1] have r1:
    "map_of (contacts_tbl ?w' ! 1) ''interaction_type'' = Some (SStr ''IM'')"
    "map_of (contacts_tbl ?w' ! 1) ''transcript_downloaded'' = Some (SBool False)"
    "map_of (contacts_tbl ?w' ! 1) ''load_file'' = Some (SStr ''IM_2018-01-31_contacts.txt'')"
    "map_of (contacts_tbl ?w' ! 1) ''contact_id'' =
       (if ''contact_id'' \<in> fst ` set (parse_contact ex_env ''IM'' ''IM_2018-01-31_contacts.txt''
                                  (hd [ex_contact 1, ex_contact 2]))
        then map_of (tf_contacts ex_env ([ex_contact 1, ex_contact 2] ! 1)) ''contact_id'' else None)"
    by (simp_all add: t0)
  from r1(4) col tf have r2: "map_of (contacts_tbl ?w' ! 1) ''contact_id'' = Some (SInt 2)"
    by simp
  from len have l2: "length (contacts_tbl ?w') = 2" by (simp add: t0)
  have "fst (parse_contacts_file ex_env ''/data/IM_2018-01-31_contacts.txt'' ex_disk) = None"
    by (simp add: ex_parse_contacts)
  with l2 r1(1,2,3) r2 show ?thesis by (intro conjI)
qed

lemma ex_parse_contact_shadowed:
  "parse_contact shadowing_env ''IM'' ''IM_2018-01-31_contacts.txt'' (ex_contact n) =
     [(''load_file'', SStr ''IM_2018-01-31_contacts.txt''), (''contact_id'', SInt n),
      (''interaction_type'', SStr ''IM''), (''transcript_downloaded'', SBool False)]"
  by (simp add: parse_contact_def shadowing_env_def ex_env_def ex_contact_def)

lemma ex_read_contacts_shadowed:
  "read_jason shadowing_env ''/data/IM_2018-01-31_contacts.txt'' ex_disk =
     Inr (PList [ex_contact 1, ex_contact 2])"
  by (simp add: read_jason_def shadowing_env_def ex_env_def ex_disk_def ex_paths)

theorem parse_contacts_file_shadowed_counterexample:
  "tf_contacts shadowing_env (ex_contact 1) =
     [(''load_file'', SStr ''upstream''), (''contact_id'', SInt 1)] \<and>
   parse_contact shadowing_env ''IM'' ''IM_2018-01-31_contacts.txt'' (ex_contact 1) =
     [(''load_file'', SStr ''IM_2018-01-31_contacts.txt''), (''contact_id'', SInt 1),
      (''interaction_type'', SStr ''IM''), (''transcript_downloaded'', SBool False)] \<and>
   fst (parse_contacts_file shadowing_env ''/data/IM_2018-01-31_contacts.txt'' ex_disk) = None \<and>
   contacts_tbl (snd (parse_contacts_file shadowing_env ''/data/IM_2018-01-31_contacts.txt'' ex_disk)) =
     [[(''load_file'', SStr ''IM_2018-01-31_contacts.txt''), (''contact_id'', SInt 1),
       (''interaction_type'', SStr ''IM''), (''transcript_downloaded'', SBool False)],
      [(''load_file'', SStr ''IM_2018-01-31_contacts.txt''), (''contact_id'', SInt 2),
       (''interaction_type'', SStr ''IM''), (''transcript_downloaded'', SBool False)]]"
proof -
  have t: "contacts_tbl ex_disk = []" by (simp add: ex_disk_def)
  have tf: "tf_contacts shadowing_env (ex_contact 1) =
      [(''load_file'', SStr ''upstream''), (''contact_id'', SInt 1)]"
    by (simp add: shadowing_env_def ex_contact_def)
  have run: "parse_contacts_file shadowing_env ''/data/IM_2018-01-31_contacts.txt'' ex_disk =
      (None, postgrez_load Contacts
         [[SStr ''IM_2018-01-31_contacts.txt'', SInt 1, SStr ''IM'', SBool False],
          [SStr ''IM_2018-01-31_contacts.txt'', SInt 2, SStr ''IM'', SBool False]]
         [''load_file'', ''contact_id'', ''interaction_type'', ''transcript_downloaded'']
         (log_add INFO ''Parsing contact file %s'' (ArgStr ''/data/IM_2018-01-31_contacts.txt'') ex_disk))"
    unfolding parse_contacts_file_def Let_def read_jason_log ex_read_contacts_shadowed ex_paths ex_split
    by (simp add: ex_parse_contact_shadowed row_get_def)
  show ?thesis
    unfolding run by (simp add: tf ex_parse_contact_shadowed t)
qed

section \<open>Properties of the transcript path, the enhancement stage and \<^verbatim>\<open>main\<close>\<close>

subsection \<open>Artifacts by position\<close>

lemma str_nat_nonempty: "str_nat n \<noteq> []"
  by (subst str_nat.simps) simp

lemma digits_val_str_int:
  "digits_val (str_int i) = (if i < 0 then digits_val (CHR ''-'' # str_nat (nat (- i))) else nat i)"
  by (simp add: str_int_def digits_val_str_nat)

lemma str_int_inj: "str_int a = str_int b \<Longrightarrow> a = b"
proof -
  assume eq: "str_int a = str_int b"
  have dash: "CHR ''-'' \<notin> set (str_nat n)" for n
    using str_nat_digits not_digit_dash by blast
  have hd_nat: "hd (str_nat n) \<noteq> CHR ''-''" for n
    using dash [of n] str_nat_nonempty [of n] by (cases "str_nat n") auto
  show "a = b"
  proof (cases "a < 0")
    case True
    show ?thesis
    proof (cases "b < 0")
      case b: True
      with True eq have "str_nat (nat (- a)) = str_nat (nat (- b))" by (simp add: str_int_def)
      then have "digits_val (str_nat (nat (- a))) = digits_val (str_nat (nat (- b)))" by simp
      with True b show ?thesis by (simp add: digits_val_str_nat)
    next
      case b: False
      with True eq have "CHR ''-'' # str_nat (nat (- a)) = str_nat (nat b)" by (simp add: str_int_def)
      then have "hd (str_nat (nat b)) = CHR ''-''" by (metis list.sel(1))
      with hd_nat show ?thesis by blast
    qed
  next
    case False
    show ?thesis
    proof (cases "b < 0")
      case b: True
      with False eq have "str_nat (nat a) = CHR ''-'' # str_nat (nat (- b))" by (simp add: str_int_def)
      then have "hd (str_nat (nat a)) = CHR ''-''" by (metis list.sel(1))
      with hd_nat show ?thesis by blast
    next
      case b: False
      with False eq have "str_nat (nat a) = str_nat (nat b)" by (simp add: str_int_def)
      then have "digits_val (str_nat (nat a)) = digits_val (str_nat (nat b))" by simp
      with False b show ?thesis by (simp add: digits_val_str_nat)
    qed
  qed
qed

lemma transcript_file_inj: "str_int a @ ''_data.txt'' = str_int b @ ''_data.txt'' \<Longrightarrow> a = b"
  by (simp add: str_int_inj)

lemma fold_writes_other:
  "f \<notin> (\<lambda>n. str_int n @ ''_data.txt'') ` fst ` set ps \<Longrightarrow>
   map_of (fold (\<lambda>(n, t) f. dict_set f (str_int n @ ''_data.txt'') t) ps d) f = map_of d f"
  by (induction ps arbitrary: d) (auto simp: map_of_dict_set)

lemma fold_writes_nth:
  "distinct (map fst ps) \<Longrightarrow> i < length ps \<Longrightarrow>
   map_of (fold (\<lambda>(n, t) f. dict_set f (str_int n @ ''_data.txt'') t) ps d)
     (str_int (fst (ps ! i)) @ ''_data.txt'') = Some (snd (ps ! i))"
proof (induction ps arbitrary: d i)
  case Nil
  then show ?case by simp
next
  case (Cons p ps)
  obtain n t where p: "p = (n, t)" by (cases p)
  show ?case
  proof (cases i)
    case 0
    from Cons.prems have "n \<notin> fst ` set ps" by (simp add: p)
    then have "str_int n @ ''_data.txt'' \<notin> (\<lambda>n. str_int n @ ''_data.txt'') ` fst ` set ps"
      using str_int_inj by auto
    from fold_writes_other [OF this] 0 show ?thesis by (simp add: p map_of_dict_set)
  next
    case (Suc j)
    with Cons.prems have "distinct (map fst ps)" and "j < length ps" by simp_all
    from Cons.IH [OF this] Suc show ?thesis by (simp add: p)
  qed
qed

text \<open>
  C9. When the answer to a chunk is not shorter than the chunk, the files written are those
  of the \<^verbatim>\<open>zip\<close> of the request with the answer, in order: the \<open>i\<close>-th returned
  transcript goes to \<^verbatim>\<open>{id}_data.txt\<close> of the \<open>i\<close>-th requested identifier, whatever the
  transcript holds, and no other file changes. For a chunk without repeated identifiers
  the file of the \<open>i\<close>-th identifier therefore holds the \<open>i\<close>-th transcript. Nothing
  reads the \<^verbatim>\<open>ContactID\<close> of a transcript on this path: with a service that answers
  in another order, the file named after one identifier holds the transcript of another.
\<close>

theorem download_chunk_by_position:
  assumes ts: "ts = ice_get_recordings e (remote_calls w) c"
    and full: "length c \<le> length ts"
    and run: "download_chunk e c w = (r, w')"
  shows "r = None \<and>
         fs w' = fold (\<lambda>(n, t) f. dict_set f (str_int n @ ''_data.txt'') t) (zip c ts) (fs w) \<and>
         (distinct c \<longrightarrow>
            (\<forall>i < length c. map_of (fs w') (str_int (c ! i) @ ''_data.txt'') = Some (ts ! i))) \<and>
         (\<forall>f. f \<notin> (\<lambda>n. str_int n @ ''_data.txt'') ` set c \<longrightarrow> map_of (fs w') f = map_of (fs w) f)"
proof -
  from ts full run have r: "r = None"
    and w': "w' = mark_downloaded c (save_transcripts e (zip c ts)
                    (w\<lparr>remote_calls := remote_calls w @ [GetRecordings c]\<rparr>))"
    by (simp_all add: download_chunk_def Let_def)
  have f: "fs w' = fold (\<lambda>(n, t) f. dict_set f (str_int n @ ''_data.txt'') t) (zip c ts) (fs w)"
    by (simp add: w' save_transcripts_fs)
  from full have len: "length (zip c ts) = length c" by simp
  from full have keys: "map fst (zip c ts) = c" by (simp add: map_fst_zip_take)
  have pos: "map_of (fs w') (str_int (c ! i) @ ''_data.txt'') = Some (ts ! i)"
    if d: "distinct c" and i: "i < length c" for i
  proof -
    from d keys have "distinct (map fst (zip c ts))" by simp
    moreover from i len have "i < length (zip c ts)" by simp
    ultimately have "map_of (fs w') (str_int (fst (zip c ts ! i)) @ ''_data.txt'') = Some (snd (zip c ts ! i))"
      unfolding f by (rule fold_writes_nth)
    with i full show ?thesis by simp
  qed
  have other: "map_of (fs w') f = map_of (fs w) f"
    if "f \<notin> (\<lambda>n. str_int n @ ''_data.txt'') ` set c" for f
  proof -
    from keys have "fst ` set (zip c ts) = set c" by (metis set_map)
    with that have "f \<notin> (\<lambda>n. str_int n @ ''_data.txt'') ` fst ` set (zip c ts)" by simp
    then show ?thesis unfolding f by (rule fold_writes_other)
  qed
  from r f pos other show ?thesis by blast
qed

lemma ex_str_int: "str_int 1 = ''1''" "str_int 2 = ''2''" "str_int 7 = ''7''"
  by (simp_all add: str_int_def str_nat_small digit_char_eval digit_char_Suc)

theorem download_chunk_by_position_witness:
  "fst (download_chunk reversing_env [1, 2] ex_world) = None \<and>
   map_of (fs (snd (download_chunk reversing_env [1, 2] ex_world))) ''1_data.txt'' =
     Some (ex_transcript 2) \<and>
   retrieved_ids [ex_transcript 2] = Inr [PS (SInt 2)]"
proof -
  have ts: "[ex_transcript 2, ex_transcript 1] =
      ice_get_recordings reversing_env (remote_calls ex_world) [1, 2]"
    by (simp add: reversing_env_def)
  have full: "length [1, 2 :: int] \<le> length [ex_transcript 2, ex_transcript 1]" by simp
  note T = download_chunk_by_position [OF ts full surjective_pairing]
  from T have 1: "fst (download_chunk reversing_env [1, 2] ex_world) = None" by blast
  from T [THEN conjunct2, THEN conjunct2, THEN conjunct1]
  have "\<forall>i < length [1, 2 :: int].
      map_of (fs (snd (download_chunk reversing_env [1, 2] ex_world)))
        (str_int ([1, 2] ! i) @ ''_data.txt'') = Some ([ex_transcript 2, ex_transcript 1] ! i)"
    by simp
  from this [rule_format, of 0]
  have 2: "map_of (fs (snd (download_chunk reversing_env [1, 2] ex_world))) ''1_data.txt'' =
     Some (ex_transcript 2)"
    by (simp add: ex_str_int)
  have 3: "retrieved_ids [ex_transcript 2] = Inr [PS (SInt 2)]"
    by (simp add: ex_transcript_def)
  from 1 2 3 show ?thesis by (intro conjI)
qed

subsection \<open>The run of the chunk loop\<close>

lemma chunk_files_other:
  "f \<notin> (\<lambda>n. str_int n @ ''_data.txt'') ` set (concat cs) \<Longrightarrow>
   map_of (chunk_files e h cs d) f = map_of d f"
proof (induction cs arbitrary: h d)
  case Nil
  show ?case by simp
next
  case (Cons c cs)
  let ?ps = "zip c (ice_get_recordings e h c)"
  have "fst ` set ?ps \<subseteq> set c" by (auto dest: set_zip_leftD)
  with Cons.prems have "f \<notin> (\<lambda>n. str_int n @ ''_data.txt'') ` fst ` set ?ps" by auto
  from fold_writes_other [OF this]
  have 1: "map_of (fold (\<lambda>(n, t) f. dict_set f (str_int n @ ''_data.txt'') t) ?ps d) f = map_of d f" .
  from Cons.prems have "f \<notin> (\<lambda>n. str_int n @ ''_data.txt'') ` set (concat cs)" by auto
  from Cons.IH [OF this] 1 show ?case by simp
qed

lemma first_short_complete:
  "j < first_short e h cs \<Longrightarrow>
   length (cs ! j) \<le> length (ice_get_recordings e (h @ map GetRecordings (take j cs)) (cs ! j))"
proof (induction cs arbitrary: h j)
  case Nil
  then show ?case by simp
next
  case (Cons c cs)
  from Cons.prems have full: "\<not> length (ice_get_recordings e h c) < length c"
    by (auto split: if_splits)
  show ?case
  proof (cases j)
    case 0
    with full show ?thesis by simp
  next
    case (Suc j')
    with Cons.prems full have "j' < first_short e (h @ [GetRecordings c]) cs" by simp
    from Cons.IH [OF this] Suc show ?thesis by simp
  qed
qed

lemma chunk_files_nth:
  assumes "distinct (concat cs)"
    and "\<forall>j < length cs.
           length (cs ! j) \<le> length (ice_get_recordings e (h @ map GetRecordings (take j cs)) (cs ! j))"
    and "j < length cs" and "i < length (cs ! j)"
  shows "map_of (chunk_files e h cs d) (str_int (cs ! j ! i) @ ''_data.txt'') =
           Some (ice_get_recordings e (h @ map GetRecordings (take j cs)) (cs ! j) ! i)"
  using assms
proof (induction cs arbitrary: h d j)
  case Nil
  then show ?case by simp
next
  case (Cons c cs)
  let ?ts = "ice_get_recordings e h c"
  let ?d1 = "fold (\<lambda>(n, t) f. dict_set f (str_int n @ ''_data.txt'') t) (zip c ?ts) d"
  from Cons.prems(2) have full: "length c \<le> length ?ts" by fastforce
  show ?case
  proof (cases j)
    case 0
    with Cons.prems(4) have i: "i < length c" by simp
    from i have "c ! i \<in> set c" by simp
    with Cons.prems(1) have "c ! i \<notin> set (concat cs)" by auto
    then have "str_int (c ! i) @ ''_data.txt'' \<notin> (\<lambda>n. str_int n @ ''_data.txt'') ` set (concat cs)"
      using str_int_inj by auto
    from chunk_files_other [OF this]
    have later: "map_of (chunk_files e (h @ [GetRecordings c]) cs ?d1) (str_int (c ! i) @ ''_data.txt'') =
        map_of ?d1 (str_int (c ! i) @ ''_data.txt'')" .
    from full have keys: "map fst (zip c ?ts) = c" by (simp add: map_fst_zip_take)
    from Cons.prems(1) keys have "distinct (map fst (zip c ?ts))" by simp
    moreover from i full have "i < length (zip c ?ts)" by simp
    ultimately have "map_of ?d1 (str_int (fst (zip c ?ts ! i)) @ ''_data.txt'') = Some (snd (zip c ?ts ! i))"
      by (rule fold_writes_nth)
    with i full have "map_of ?d1 (str_int (c ! i) @ ''_data.txt'') = Some (?ts ! i)" by simp
    with later 0 show ?thesis by simp
  next
    case (Suc j')
    from Cons.prems(1) have 1: "distinct (concat cs)" by simp
    have 2: "\<forall>j < length cs.
        length (cs ! j) \<le> length (ice_get_recordings e ((h @ [GetRecordings c]) @ map GetRecordings (take j cs)) (cs ! j))"
    proof (intro allI impI)
      fix j assume "j < length cs"
      then have "Suc j < length (c # cs)" by simp
      from Cons.prems(2) [rule_format, OF this] show
        "length (cs ! j) \<le> length (ice_get_recordings e ((h @ [GetRecordings c]) @ map GetRecordings (take j cs)) (cs ! j))"
        by simp
    qed
    from Cons.prems(3,4) Suc have 3: "j' < length cs" and 4: "i < length (cs ! j')" by simp_all
    from Cons.IH [OF 1 2 3 4, of ?d1] Suc show ?thesis by simp
  qed
qed

lemma chunk_files_completed:
  assumes d: "distinct (concat chs)"
    and j: "j < first_short e h chs" and i: "i < length (chs ! j)"
  shows "map_of (chunk_files e h (take (first_short e h chs) chs) f) (str_int (chs ! j ! i) @ ''_data.txt'') =
           Some (ice_get_recordings e (h @ map GetRecordings (take j chs)) (chs ! j) ! i)"
proof -
  let ?k = "first_short e h chs"
  have k: "?k \<le> length chs" by (rule first_short_le)
  have "concat chs = concat (take ?k chs) @ concat (drop ?k chs)"
    by (metis append_take_drop_id concat_append)
  with d have 1: "distinct (concat (take ?k chs))" by simp
  have 2: "\<forall>j < length (take ?k chs).
      length (take ?k chs ! j) \<le>
        length (ice_get_recordings e (h @ map GetRecordings (take j (take ?k chs))) (take ?k chs ! j))"
  proof (intro allI impI)
    fix j assume "j < length (take ?k chs)"
    then have jk: "j < ?k" by simp
    then have m: "min j ?k = j" by simp
    from first_short_complete [OF jk] jk show
      "length (take ?k chs ! j) \<le>
        length (ice_get_recordings e (h @ map GetRecordings (take j (take ?k chs))) (take ?k chs ! j))"
      by (simp add: m)
  qed
  from j k have 3: "j < length (take ?k chs)" by simp
  from i j have 4: "i < length (take ?k chs ! j)" by simp
  from j have m: "min j ?k = j" by simp
  from chunk_files_nth [OF 1 2 3 4, of f] j show ?thesis by (simp add: m)
qed

text \<open>
  C1, as amended. \<^verbatim>\<open>download_transcripts\<close> cuts the identifier list of length \<open>L\<close>
  into \<open>ceil(L/20)\<close> consecutive chunks, of 20 each but for the last, and calls the
  service once per chunk, in order, up to and including the first chunk \<open>k\<close> whose
  answer is shorter than the chunk. So it makes \<open>min (k + 1) (ceil(L/20))\<close> calls: all
  of them exactly when no chunk before the last has a short answer, and it ends without
  an error exactly when no chunk at all has one. Every chunk before \<open>k\<close> has its
  artifacts written, one per identifier and each holding the transcript at the
  identifier's position in the answer (when no identifier is repeated, that is what the
  file of each of these identifiers holds in the end), and after them its markers set in
  one update; the short chunk and the chunks after it write no artifact and set no
  marker. At the short chunk the run raises; when every
  returned transcript carries a hashable \<^verbatim>\<open>['Value']['ContactID']\<close> the error is the
  fatal "Transcripts not returned for all contact ids" and the last log record holds the
  set of the requested identifiers that no returned identifier equals.
\<close>

theorem download_transcripts_chunked:
  assumes run: "download_transcripts e arg w = (r, w')"
    and ids: "ids = (case arg of None \<Rightarrow> pending_contact_ids w | Some l \<Rightarrow> l)"
    and chs: "chs = chunker ids 20"
    and k: "k = first_short e (remote_calls w) chs"
    and ts: "ts = ice_get_recordings e (remote_calls w @ map GetRecordings (take k chs)) (chs ! k)"
  shows "length chs = (length ids + 19) div 20 \<and> concat chs = ids \<and>
         (\<forall>c \<in> set chs. c \<noteq> [] \<and> length c \<le> 20) \<and>
         (\<forall>j. Suc j < length chs \<longrightarrow> length (chs ! j) = 20) \<and>
         remote_calls w' = remote_calls w @ map GetRecordings (take (Suc k) chs) \<and>
         length (remote_calls w') = length (remote_calls w) + min (Suc k) (length chs) \<and>
         contacts_tbl w' = fold mark_rows (take k chs) (contacts_tbl w) \<and>
         fs w' = chunk_files e (remote_calls w) (take k chs) (fs w) \<and>
         (distinct ids \<longrightarrow>
            (\<forall>j < k. \<forall>i < length (chs ! j).
               map_of (fs w') (str_int (chs ! j ! i) @ ''_data.txt'') =
                 Some (ice_get_recordings e (remote_calls w @ map GetRecordings (take j chs)) (chs ! j) ! i))) \<and>
         store_calls w' = store_calls w @
           concat (map (\<lambda>c. map (\<lambda>n. WriteJason (artifact_path e (str_int n @ ''_data.txt''))) c @
                              [ExecuteUpdate c])
                       (take k chs)) \<and>
         ((r = None) = (k = length chs)) \<and>
         (k < length chs \<longrightarrow>
            length ts < length (chs ! k) \<and>
            (\<forall>rs. retrieved_ids ts = Inr rs \<and> list_all hashable rs \<longrightarrow>
               r = Some (Exception ''Transcripts not returned for all contact ids'') \<and>
               log_out w' = log_out w @
                 [(INFO, ''Attempting to process %s contact ids'', ArgNat (length ids)),
                  (WARNING, ''Missing transcripts %s'', ArgIdSet (missing_ids (chs ! k) rs))] \<and>
               missing_ids (chs ! k) rs = set (chs ! k) - {x. \<exists>v \<in> set rs. py_eq_int x v}))"
proof -
  have len: "length chs = (length ids + 19) div 20"
    using length_chunker [of 20 ids] by (simp add: chs)
  have cat: "concat chs = ids"
    by (simp add: chs concat_chunker)
  have sizes: "\<forall>c \<in> set chs. c \<noteq> [] \<and> length c \<le> 20"
    using chunker_sizes [of _ ids 20] by (simp add: chs)
  have full: "\<forall>j. Suc j < length chs \<longrightarrow> length (chs ! j) = 20"
    using chunker_full [of _ ids 20] by (simp add: chs)
  show ?thesis
  proof (cases "ids = []")
    case True
    then have "chs = []" by (simp add: chs chunker_Nil)
    moreover from True run ids have "r = None" and "w' = log_add WARNING ''No contact ids to parse. Exiting..'' NoArg w"
      by (simp_all add: download_transcripts_def Let_def)
    ultimately show ?thesis using len cat by (simp add: k)
  next
    case False
    define w0 where "w0 = log_add INFO ''Attempting to process %s contact ids'' (ArgNat (length ids)) w"
    from False run ids have d: "download_chunks e chs w0 = (r, w')"
      by (simp add: download_transcripts_def chs w0_def Let_def)
    have h: "remote_calls w0 = remote_calls w" by (simp add: w0_def)
    have k0: "k = first_short e (remote_calls w0) chs" by (simp add: k h)
    have calls: "remote_calls w' = remote_calls w @ map GetRecordings (take (Suc k) chs)"
      using download_chunks_calls [of e chs w0] d by (simp add: k0 h)
    then have count: "length (remote_calls w') = length (remote_calls w) + min (Suc k) (length chs)"
      by (simp add: min.commute)
    have tbl: "contacts_tbl w' = fold mark_rows (take k chs) (contacts_tbl w)"
      using download_chunks_contacts [of e chs w0] d by (simp add: k0 w0_def)
    have files: "fs w' = chunk_files e (remote_calls w) (take k chs) (fs w)"
      using download_chunks_files [of e chs w0] d by (simp add: k0 w0_def)
    have each: "\<forall>j < k. \<forall>i < length (chs ! j).
               map_of (fs w') (str_int (chs ! j ! i) @ ''_data.txt'') =
                 Some (ice_get_recordings e (remote_calls w @ map GetRecordings (take j chs)) (chs ! j) ! i)"
      if dist: "distinct ids"
    proof (intro allI impI)
      fix j i assume j: "j < k" and i: "i < length (chs ! j)"
      from dist cat have "distinct (concat chs)" by simp
      from chunk_files_completed [OF this, of j e "remote_calls w" i "fs w"] j i
      show "map_of (fs w') (str_int (chs ! j ! i) @ ''_data.txt'') =
                 Some (ice_get_recordings e (remote_calls w @ map GetRecordings (take j chs)) (chs ! j) ! i)"
        by (simp add: files k)
    qed
    have store: "store_calls w' = store_calls w @
           concat (map (\<lambda>c. map (\<lambda>n. WriteJason (artifact_path e (str_int n @ ''_data.txt''))) c @
                              [ExecuteUpdate c])
                       (take k chs))"
      using download_chunks_store [of e chs w0] d by (simp add: k0 w0_def)
    have out: "(r = None) = (k = length chs)"
      using download_chunks_outcome [of e chs w0] d by (simp add: k0)
    have fail: "length ts < length (chs ! k) \<and>
            (\<forall>rs. retrieved_ids ts = Inr rs \<and> list_all hashable rs \<longrightarrow>
               r = Some (Exception ''Transcripts not returned for all contact ids'') \<and>
               log_out w' = log_out w @
                 [(INFO, ''Attempting to process %s contact ids'', ArgNat (length ids)),
                  (WARNING, ''Missing transcripts %s'', ArgIdSet (missing_ids (chs ! k) rs))] \<and>
               missing_ids (chs ! k) rs = set (chs ! k) - {x. \<exists>v \<in> set rs. py_eq_int x v})"
      if lt: "k < length chs"
    proof -
      from lt have lt0: "first_short e (remote_calls w0) chs < length chs" by (simp add: k0)
      have ts0: "ts = ice_get_recordings e
                   (remote_calls w0 @ map GetRecordings (take (first_short e (remote_calls w0) chs) chs))
                   (chs ! first_short e (remote_calls w0) chs)"
        by (simp add: ts k h)
      from download_chunks_failure(1) [OF lt0] have short: "length ts < length (chs ! k)"
        by (simp add: ts0 k0)
      have "r = Some (Exception ''Transcripts not returned for all contact ids'') \<and>
               log_out w' = log_out w @
                 [(INFO, ''Attempting to process %s contact ids'', ArgNat (length ids)),
                  (WARNING, ''Missing transcripts %s'', ArgIdSet (missing_ids (chs ! k) rs))] \<and>
               missing_ids (chs ! k) rs = set (chs ! k) - {x. \<exists>v \<in> set rs. py_eq_int x v}"
        if a: "retrieved_ids ts = Inr rs" and b: "list_all hashable rs" for rs
      proof -
        from a have a0: "retrieved_ids (ice_get_recordings e
                   (remote_calls w0 @ map GetRecordings (take (first_short e (remote_calls w0) chs) chs))
                   (chs ! first_short e (remote_calls w0) chs)) = Inr rs"
          by (simp only: ts0)
        from download_chunks_failure(2) [OF lt0 a0 b] d
        have "r = Some (Exception ''Transcripts not returned for all contact ids'')"
          and "log_out w' = log_out w0 @ [(WARNING, ''Missing transcripts %s'', ArgIdSet (missing_ids (chs ! k) rs))]"
          by (simp_all add: k0)
        moreover have "missing_ids (chs ! k) rs = set (chs ! k) - {x. \<exists>v \<in> set rs. py_eq_int x v}"
          by (rule missing_ids_eq)
        ultimately show ?thesis by (simp add: w0_def)
      qed
      with short show ?thesis by blast
    qed
    from len cat sizes full calls count tbl files each store out fail show ?thesis by blast
  qed
qed

lemma ex_chunks: "chunker ex_ids 20 = [take 20 ex_ids, [21]]"
  by (simp add: ex_ids_def chunker_step chunker_Nil)

lemma ex_file_names:
  "map (\<lambda>n. str_int n @ ''_data.txt'') (take 20 ex_ids) =
     [''1_data.txt'', ''2_data.txt'', ''3_data.txt'', ''4_data.txt'', ''5_data.txt'', ''6_data.txt'',
      ''7_data.txt'', ''8_data.txt'', ''9_data.txt'', ''10_data.txt'', ''11_data.txt'', ''12_data.txt'',
      ''13_data.txt'', ''14_data.txt'', ''15_data.txt'', ''16_data.txt'', ''17_data.txt'', ''18_data.txt'',
      ''19_data.txt'', ''20_data.txt'']"
  by (simp add: ex_ids_def str_int_def str_nat_small str_nat_2 digit_char_eval digit_char_Suc)

lemma ex_first_answer:
  "zip (take 20 ex_ids) (ice_get_recordings ex_env [] (take 20 ex_ids)) =
     map (\<lambda>n. (n, ex_transcript n)) (take 20 ex_ids)"
  by (simp add: ex_env_def ex_ids_def)

lemma fold_writes_fresh:
  "distinct (map f ns) \<Longrightarrow> set (map f ns) \<inter> fst ` set d = {} \<Longrightarrow>
   fold (\<lambda>(n, t) d. dict_set d (f n) t) (map (\<lambda>n. (n, g n)) ns) d = d @ map (\<lambda>n. (f n, g n)) ns"
proof (induction ns arbitrary: d)
  case Nil
  show ?case by simp
next
  case (Cons n ns)
  from Cons.prems have new: "f n \<notin> fst ` set d" by auto
  then have step: "dict_set d (f n) (g n) = d @ [(f n, g n)]"
    by (induction d) auto
  from Cons.prems have "distinct (map f ns)"
    and "set (map f ns) \<inter> fst ` set (d @ [(f n, g n)]) = {}" by auto
  from Cons.IH [OF this] step show ?case by simp
qed

lemma ex_chunk_files:
  "fold (\<lambda>(n, t) f. dict_set f (str_int n @ ''_data.txt'') t)
        (zip (take 20 ex_ids) (ice_get_recordings ex_env [] (take 20 ex_ids))) [] =
     map (\<lambda>n. (str_int n @ ''_data.txt'', ex_transcript n)) (take 20 ex_ids)"
proof -
  have "distinct (map (\<lambda>n. str_int n @ ''_data.txt'') (take 20 ex_ids))"
    unfolding ex_file_names by simp
  from fold_writes_fresh [OF this, of "[]" ex_transcript] show ?thesis
    by (simp add: ex_first_answer)
qed

theorem download_transcripts_chunked_witness:
  "length ex_ids = 21 \<and> (21 + 19) div 20 = (2::nat) \<and>
   fst (download_transcripts ex_env (Some ex_ids) ex_world) =
     Some (Exception ''Transcripts not returned for all contact ids'') \<and>
   remote_calls (snd (download_transcripts ex_env (Some ex_ids) ex_world)) =
     [GetRecordings (take 20 ex_ids), GetRecordings [21]] \<and>
   contacts_tbl (snd (download_transcripts ex_env (Some ex_ids) ex_world)) =
     mark_rows (take 20 ex_ids) [ex_contact_row 1, ex_contact_row 21] \<and>
   fs (snd (download_transcripts ex_env (Some ex_ids) ex_world)) =
     map (\<lambda>n. (str_int n @ ''_data.txt'', ex_transcript n)) (take 20 ex_ids) \<and>
   store_calls (snd (download_transcripts ex_env (Some ex_ids) ex_world)) =
     map (\<lambda>n. WriteJason (artifact_path ex_env (str_int n @ ''_data.txt''))) (take 20 ex_ids) @
       [ExecuteUpdate (take 20 ex_ids)] \<and>
   log_out (snd (download_transcripts ex_env (Some ex_ids) ex_world)) =
     [(INFO, ''Attempting to process %s contact ids'', ArgNat 21),
      (WARNING, ''Missing transcripts %s'', ArgIdSet {21})]"
proof -
  have k: "first_short ex_env (remote_calls ex_world) (chunker ex_ids 20) = 1"
    unfolding ex_chunks by (simp add: ex_env_def ex_world_def ex_ids_def)
  have ts: "ice_get_recordings ex_env (remote_calls ex_world @ map GetRecordings (take 1 (chunker ex_ids 20)))
              (chunker ex_ids 20 ! 1) = []"
    by (simp add: ex_chunks ex_env_def)
  have m: "missing_ids [21] [] = {21}"
    by (simp add: missing_ids_def)
  have w: "remote_calls ex_world = []" "fs ex_world = []" "store_calls ex_world = []"
    "log_out ex_world = []" "contacts_tbl ex_world = [ex_contact_row 1, ex_contact_row 21]"
    by (simp_all add: ex_world_def)
  have l: "length ex_ids = 21" by (simp add: ex_ids_def)
  from download_transcripts_chunked [where e = ex_env and arg = "Some ex_ids" and w = ex_world
      and ids = ex_ids and chs = "chunker ex_ids 20" and k = 1 and ts = "[]", OF surjective_pairing]
    k ts m
  show ?thesis unfolding ex_chunks w by (simp add: ex_chunk_files l)
qed

theorem download_transcripts_call_count_counterexample:
  "length ex_ids = 21 \<and> (21 + 19) div 20 = (2::nat) \<and>
   fst (download_transcripts silent_env (Some ex_ids) ex_world) =
     Some (Exception ''Transcripts not returned for all contact ids'') \<and>
   remote_calls (snd (download_transcripts silent_env (Some ex_ids) ex_world)) =
     [GetRecordings (take 20 ex_ids)]"
  unfolding download_transcripts_def Let_def option.case ex_chunks
  by (simp add: download_chunk_def silent_env_def ex_env_def ex_world_def ex_ids_def log_add_def)

subsection \<open>The enhancement chain\<close>

lemma dict_set_mid:
  "k \<notin> fst ` set pre \<Longrightarrow> dict_set (pre @ (k, v) # post) k v' = pre @ (k, v') # post"
  by (induction pre) auto

lemma replace_nans_loop_map:
  "distinct (map fst (pre @ items)) \<Longrightarrow>
   replace_nans_loop items (map (\<lambda>(k, v). (k, if pd_isnull v then SNone else v)) pre @ items) =
     map (\<lambda>(k, v). (k, if pd_isnull v then SNone else v)) (pre @ items)"
proof (induction items arbitrary: pre)
  case Nil
  show ?case by simp
next
  case (Cons kv items)
  obtain k v where kv: "kv = (k, v)" by (cases kv)
  let ?f = "\<lambda>(k, v). (k, if pd_isnull v then SNone else v)"
  from Cons.prems have d: "distinct (map fst ((pre @ [kv]) @ items))" by simp
  from Cons.prems have k: "k \<notin> fst ` set (map ?f pre)" by (force simp: kv)
  have step: "(if pd_isnull v then dict_set (map ?f pre @ (k, v) # items) k SNone
               else map ?f pre @ (k, v) # items) = map ?f (pre @ [kv]) @ items"
    using dict_set_mid [OF k, of v items SNone] by (simp add: kv)
  from Cons.IH [OF d] step show ?case by (simp add: kv)
qed

lemma replace_nans_map:
  "distinct (map fst summary) \<Longrightarrow>
   replace_nans summary = map (\<lambda>(k, v). (k, if pd_isnull v then SNone else v)) summary"
  using replace_nans_loop_map [of "[]" summary] by (simp add: replace_nans_def)

lemma project_row_self:
  "distinct (map fst d) \<Longrightarrow> project_row (map fst d) d = Inr (map snd d)"
proof -
  have "distinct (map fst (pre @ d)) \<Longrightarrow> project_row (map fst d) (pre @ d) = Inr (map snd d)" for pre
  proof (induction d arbitrary: pre)
    case Nil
    show ?case by simp
  next
    case (Cons kv d)
    obtain k v where kv: "kv = (k, v)" by (cases kv)
    from Cons.prems have "map_of (pre @ (k, v) # d) k = Some v"
      by (force simp: kv map_add_def map_of_eq_None_iff split: option.splits)
    moreover from Cons.prems have "distinct (map fst ((pre @ [kv]) @ d))" by simp
    from Cons.IH [OF this] have "project_row (map fst d) (pre @ kv # d) = Inr (map snd d)" by simp
    ultimately show ?case by (simp add: kv row_get_def)
  qed
  from this [of "[]"] show "distinct (map fst d) \<Longrightarrow> project_row (map fst d) d = Inr (map snd d)"
    by simp
qed

lemma load_enhanced_transcript_row:
  "distinct (map fst summary) \<Longrightarrow>
   load_enhanced_transcript contact_id summary w =
     (None, w\<lparr>store_calls := store_calls w @ [PostgrezLoad Enhanced 1],
              enhanced_tbl := enhanced_tbl w @ [(''contact_id'', SInt contact_id) # summary]\<rparr>)"
  by (simp add: load_enhanced_transcript_def Let_def project_row_self postgrez_load_def zip_map_fst_snd)

lemma map_of_map_values:
  "map_of (map (\<lambda>(k, v). (k, f v)) d) k = map_option f (map_of d k)"
  by (induction d) auto

lemma load_transcripts_df_frame [simp]:
  "contacts_tbl (snd (load_transcripts_df e ids w)) = contacts_tbl w"
  "transcripts_tbl (snd (load_transcripts_df e ids w)) = transcripts_tbl w"
  "enhanced_tbl (snd (load_transcripts_df e ids w)) = enhanced_tbl w"
  "fs (snd (load_transcripts_df e ids w)) = fs w"
  "remote_calls (snd (load_transcripts_df e ids w)) = remote_calls w"
  by (simp_all add: load_transcripts_df_def)

lemma null_to_none_not_nan: "SNaN \<noteq> (if pd_isnull v then SNone else v)"
  by (cases v) auto

text \<open>
  C8. For a summary with one value per key, as a Python dictionary has it,
  \<^verbatim>\<open>replace_nans\<close> puts \<^verbatim>\<open>None\<close> in place of every value that \<^verbatim>\<open>pd.isnull\<close> holds
  null (\<^verbatim>\<open>None\<close>, NaN) and leaves every other value and the order of the keys as they
  are, so no field of the result is NaN. The chain of one contact loads the row made of
  the \<^verbatim>\<open>contact_id\<close> and the result of \<^verbatim>\<open>replace_nans\<close> on the summary.
\<close>

theorem replace_nans_before_load:
  assumes s: "summary = tf_transcript_summary e (tf_transcripts e (fst (load_transcripts_df e [contact_id] w)))"
    and d: "distinct (map fst summary)"
  shows "replace_nans summary = map (\<lambda>(k, v). (k, if pd_isnull v then SNone else v)) summary \<and>
         map fst (replace_nans summary) = map fst summary \<and>
         SNaN \<notin> snd ` set (replace_nans summary) \<and>
         (\<forall>k v. map_of summary k = Some v \<longrightarrow>
                map_of (replace_nans summary) k = Some (if pd_isnull v then SNone else v)) \<and>
         fst (enhance_one e contact_id w) = None \<and>
         enhanced_tbl (snd (enhance_one e contact_id w)) =
           enhanced_tbl w @ [(''contact_id'', SInt contact_id) # replace_nans summary]"
proof -
  note m = replace_nans_map [OF d]
  have k: "map fst (replace_nans summary) = map fst summary"
    by (simp add: m case_prod_unfold comp_def)
  have n: "SNaN \<notin> snd ` set (replace_nans summary)"
    by (auto simp: m null_to_none_not_nan)
  have l: "map_of (replace_nans summary) k = Some (if pd_isnull v then SNone else v)"
    if "map_of summary k = Some v" for k v
    using that by (simp add: m map_of_map_values)
  from d k have d': "distinct (map fst (replace_nans summary))" by simp
  obtain rows w1 where df: "load_transcripts_df e [contact_id] w = (rows, w1)"
    by (cases "load_transcripts_df e [contact_id] w")
  from df load_transcripts_df_frame(3) [of e "[contact_id]" w]
  have w1: "enhanced_tbl w1 = enhanced_tbl w" by simp
  from df have e1: "enhance_one e contact_id w = load_enhanced_transcript contact_id (replace_nans summary) w1"
    by (simp add: enhance_one_def Let_def s)
  have "fst (enhance_one e contact_id w) = None"
    and "enhanced_tbl (snd (enhance_one e contact_id w)) =
           enhanced_tbl w @ [(''contact_id'', SInt contact_id) # replace_nans summary]"
    by (simp_all add: e1 load_enhanced_transcript_row [OF d'] w1)
  with m k n l show ?thesis by blast
qed

lemma ex_disk_rows:
  "fst (load_transcripts_df ex_env [8] ex_disk) = [[(''contact_id'', SInt 8)]]"
  by (simp add: load_transcripts_df_def ex_env_def ex_disk_def column_def)

lemma ex_summary:
  "tf_transcript_summary ex_env (tf_transcripts ex_env [[(''contact_id'', SInt 8)]]) =
     [(''messages'', SInt 1), (''mean_delay'', SNaN), (''first_message'', SStr ''a|b'')]"
  by (simp add: ex_env_def)

lemma ex_replace_nans:
  "replace_nans [(''messages'', SInt 1), (''mean_delay'', SNaN), (''first_message'', SStr ''a|b'')] =
     [(''messages'', SInt 1), (''mean_delay'', SNone), (''first_message'', SStr ''a|b'')]"
  by (simp add: replace_nans_def)

theorem replace_nans_before_load_witness:
  "enhanced_tbl (snd (enhance_one ex_env 8 ex_disk)) =
     [[(''contact_id'', SInt 8), (''messages'', SInt 1), (''mean_delay'', SNone),
       (''first_message'', SStr ''a|b'')]]"
proof -
  have s: "[(''messages'', SInt 1), (''mean_delay'', SNaN), (''first_message'', SStr ''a|b'')] =
      tf_transcript_summary ex_env (tf_transcripts ex_env (fst (load_transcripts_df ex_env [8] ex_disk)))"
    by (simp only: ex_disk_rows ex_summary)
  have d: "distinct (map fst [(''messages'', SInt 1), (''mean_delay'', SNaN),
                               (''first_message'', SStr ''a|b'')])"
    by simp
  have t: "enhanced_tbl ex_disk = []" by (simp add: ex_disk_def)
  from replace_nans_before_load [OF s d] show ?thesis
    by (simp only: ex_replace_nans t append_Nil)
qed

subsection \<open>Transcript rows\<close>

lemma parse_transcript_frame:
  "contacts_tbl (snd (parse_transcript e f w)) = contacts_tbl w"
  "enhanced_tbl (snd (parse_transcript e f w)) = enhanced_tbl w"
  "fs (snd (parse_transcript e f w)) = fs w"
  "remote_calls (snd (parse_transcript e f w)) = remote_calls w"
  "fst (parse_transcript e f w) \<noteq> None \<Longrightarrow>
     transcripts_tbl (snd (parse_transcript e f w)) = transcripts_tbl w"
  by (auto simp: parse_transcript_def Let_def split: sum.splits list.splits)

lemma parse_transcript_rows:
  assumes rd: "read_jason e filename w = Inr transcript"
    and run: "parse_transcript e filename w = (None, w')"
  shows "\<exists>vss. tf_recording e transcript \<noteq> [] \<and>
           project_rows (map fst (hd (tf_recording e transcript))) (tf_recording e transcript) = Inr vss \<and>
           transcripts_tbl w' = transcripts_tbl w @
             map (zip (map fst (hd (tf_recording e transcript)))) (map (map strip_pipe) vss)"
proof (cases "tf_recording e transcript")
  case Nil
  with rd run show ?thesis by (simp add: parse_transcript_def Let_def)
next
  case (Cons m ms)
  with rd run show ?thesis
    by (auto simp: parse_transcript_def Let_def split: sum.splits)
qed

lemma strip_pipe_clean: "strip_pipe v = SStr s \<Longrightarrow> CHR ''|'' \<notin> set s"
  by (cases v) auto

lemma map_of_zip_map:
  "length cols = length vs \<Longrightarrow> map_of (zip cols (map f vs)) k = map_option f (map_of (zip cols vs) k)"
proof (induction cols arbitrary: vs)
  case Nil
  show ?case by simp
next
  case (Cons c cols)
  then show ?case by (cases vs) auto
qed

text \<open>
  C4, as amended. The rows that \<^verbatim>\<open>parse_transcript\<close> hands to the loader hold, under
  each column of the first message, the value of the message with every \<^verbatim>\<open>|\<close> removed
  when it is a string and unchanged otherwise, whatever transform produced it: no string
  of a loaded transcript row holds a \<^verbatim>\<open>|\<close>. \<^verbatim>\<open>load_enhanced_transcript\<close> hands the
  summary over as it is: the row is the \<^verbatim>\<open>contact_id\<close> followed by the summary's
  fields, with no character removed.
\<close>

theorem parse_transcript_strips_delimiter:
  assumes rd: "read_jason e filename w = Inr transcript"
    and run: "parse_transcript e filename w = (None, w')"
    and msgs: "messages = tf_recording e transcript"
  shows "length (transcripts_tbl w') = length (transcripts_tbl w) + length messages \<and>
         (\<forall>i < length messages. \<forall>k \<in> fst ` set (hd messages).
            map_of (transcripts_tbl w' ! (length (transcripts_tbl w) + i)) k =
              map_option strip_pipe (map_of (messages ! i) k)) \<and>
         (\<forall>i < length messages. \<forall>s.
            SStr s \<in> snd ` set (transcripts_tbl w' ! (length (transcripts_tbl w) + i)) \<longrightarrow>
              CHR ''|'' \<notin> set s) \<and>
         (\<forall>contact_id summary w0. distinct (map fst summary) \<longrightarrow>
            enhanced_tbl (snd (load_enhanced_transcript contact_id summary w0)) =
              enhanced_tbl w0 @ [(''contact_id'', SInt contact_id) # summary])"
proof -
  let ?cols = "map fst (hd messages)"
  from parse_transcript_rows [OF rd run] obtain vss where
    vss: "project_rows ?cols messages = Inr vss"
    and tbl: "transcripts_tbl w' = transcripts_tbl w @ map (zip ?cols) (map (map strip_pipe) vss)"
    by (auto simp: msgs)
  from project_rows_nth [OF vss] have len: "length vss = length messages"
    and nth: "\<forall>i < length messages. project_row ?cols (messages ! i) = Inr (vss ! i)"
    by simp_all
  have 1: "length (transcripts_tbl w') = length (transcripts_tbl w) + length messages"
    by (simp add: tbl len)
  have row: "transcripts_tbl w' ! (length (transcripts_tbl w) + i) = zip ?cols (map strip_pipe (vss ! i))"
    if "i < length messages" for i
    using that len by (simp add: tbl nth_append)
  have 2: "map_of (transcripts_tbl w' ! (length (transcripts_tbl w) + i)) k =
              map_option strip_pipe (map_of (messages ! i) k)"
    if i: "i < length messages" and k: "k \<in> fst ` set (hd messages)" for i k
  proof -
    from nth i have p: "project_row ?cols (messages ! i) = Inr (vss ! i)" by blast
    from k have "k \<in> set ?cols" by simp
    from project_row_lookup [OF p this] project_row_length [OF p] show ?thesis
      by (simp add: row [OF i] map_of_zip_map)
  qed
  have 3: "CHR ''|'' \<notin> set s"
    if i: "i < length messages"
      and s: "SStr s \<in> snd ` set (transcripts_tbl w' ! (length (transcripts_tbl w) + i))" for i s
  proof -
    from s have "SStr s \<in> snd ` set (zip ?cols (map strip_pipe (vss ! i)))"
      by (simp only: row [OF i])
    then have "SStr s \<in> set (map strip_pipe (vss ! i))"
      by (auto dest: set_zip_rightD)
    then obtain v where "strip_pipe v = SStr s" by auto
    then show ?thesis by (rule strip_pipe_clean)
  qed
  have 4: "enhanced_tbl (snd (load_enhanced_transcript contact_id summary w0)) =
              enhanced_tbl w0 @ [(''contact_id'', SInt contact_id) # summary]"
    if "distinct (map fst summary)" for contact_id summary w0
    by (simp add: load_enhanced_transcript_row [OF that])
  from 1 2 3 4 show ?thesis by blast
qed

text \<open>
  C5, on the code. When the transform of a transcript artifact yields an empty message
  list, \<^verbatim>\<open>parse_transcript\<close> raises \<^verbatim>\<open>IndexError\<close> at \<^verbatim>\<open>messages[0]\<close>: it logs
  only the line that announces the file and loads nothing. (\<^verbatim>\<open>download_transcripts\<close>
  with no identifiers and \<^verbatim>\<open>parse_contacts_file\<close> on an empty artifact do log and
  return, see \<open>download_transcripts_no_ids\<close> and \<open>parse_contacts_file_empty\<close>.)
\<close>

theorem parse_transcript_empty_messages:
  assumes rd: "read_jason e filename w = Inr transcript"
    and empty: "tf_recording e transcript = []"
  shows "parse_transcript e filename w =
           (Some IndexError, log_add INFO ''Parsing transcript file %s'' (ArgStr filename) w)"
  using rd empty by (simp add: parse_transcript_def Let_def)

lemma download_transcripts_no_ids:
  "download_transcripts e (Some []) w =
     (None, log_add WARNING ''No contact ids to parse. Exiting..'' NoArg w)"
  "pending_contact_ids w = [] \<Longrightarrow>
   download_transcripts e None w =
     (None, log_add WARNING ''No contact ids to parse. Exiting..'' NoArg w)"
  by (simp_all add: download_transcripts_def)

lemma parse_contacts_file_empty:
  "read_jason e filename w = Inr contacts \<Longrightarrow> \<not> truthy contacts \<Longrightarrow>
   parse_contacts_file e filename w =
     (None, log_add WARNING ''Empty contacts file. Exiting..'' NoArg
              (log_add INFO ''Parsing contact file %s'' (ArgStr filename) w))"
  by (simp add: parse_contacts_file_def Let_def)

lemma ex_read_transcripts:
  "read_jason ex_env ''/data/7_data.txt'' ex_disk = Inr (ex_transcript 7)"
  "read_jason ex_env ''/data/8_data.txt'' ex_disk = Inr (ex_empty_transcript 8)"
  by (simp_all add: read_jason_def ex_env_def ex_disk_def ex_paths)

lemma ex_messages:
  "tf_recording ex_env (ex_transcript 7) = [[(''contact_id'', SInt 7), (''message'', SStr ''a|b'')]]"
  "tf_recording ex_env (ex_empty_transcript 8) = []"
  by (simp_all add: ex_env_def ex_transcript_def ex_empty_transcript_def)

lemma ex_parse_transcript:
  "parse_transcript ex_env ''/data/7_data.txt'' ex_disk =
     (None, ex_disk\<lparr>transcripts_tbl :=
               [[(''contact_id'', SInt 8)], [(''contact_id'', SInt 7), (''message'', SStr ''ab'')]],
             store_calls := [PostgrezLoad Transcripts 1],
             log_out := [(INFO, ''Parsing transcript file %s'', ArgStr ''/data/7_data.txt'')]\<rparr>)"
proof -
  have t: "transcripts_tbl ex_disk = [[(''contact_id'', SInt 8)]]" "log_out ex_disk = []"
    "store_calls ex_disk = []"
    by (simp_all add: ex_disk_def)
  show ?thesis
    unfolding parse_transcript_def Let_def read_jason_log ex_read_transcripts ex_messages
    by (simp add: ex_messages row_get_def postgrez_load_def log_add_def t)
qed

theorem parse_transcript_strips_delimiter_witness:
  "tf_recording ex_env (ex_transcript 7) = [[(''contact_id'', SInt 7), (''message'', SStr ''a|b'')]] \<and>
   length (transcripts_tbl (snd (parse_transcript ex_env ''/data/7_data.txt'' ex_disk))) = 2 \<and>
   map_of (transcripts_tbl (snd (parse_transcript ex_env ''/data/7_data.txt'' ex_disk)) ! 1) ''message'' =
     Some (SStr ''ab'')"
proof -
  have run: "parse_transcript ex_env ''/data/7_data.txt'' ex_disk =
      (None, snd (parse_transcript ex_env ''/data/7_data.txt'' ex_disk))"
    by (simp add: ex_parse_transcript)
  have t: "length (transcripts_tbl ex_disk) = 1" by (simp add: ex_disk_def)
  note T = parse_transcript_strips_delimiter [OF ex_read_transcripts(1) run ex_messages(1) [symmetric]]
  from T have 1: "length (transcripts_tbl (snd (parse_transcript ex_env ''/data/7_data.txt'' ex_disk))) = 2"
    by (simp add: t)
  from T [THEN conjunct2, THEN conjunct1, rule_format, of 0 "''message''"]
  have 2: "map_of (transcripts_tbl (snd (parse_transcript ex_env ''/data/7_data.txt'' ex_disk)) ! 1)
      ''message'' = Some (SStr ''ab'')"
    by (simp add: t)
  from ex_messages(1) 1 2 show ?thesis by (intro conjI)
qed

lemma ex_to_enhance: "to_enhance ex_disk = [Some 8]"
  by (simp add: to_enhance_def ex_disk_def column_def)

lemma ex_enhance_one:
  "enhance_one ex_env 8 w =
     load_enhanced_transcript 8
       (replace_nans (tf_transcript_summary ex_env (tf_transcripts ex_env (fst (load_transcripts_df ex_env [8] w)))))
       (snd (load_transcripts_df ex_env [8] w))"
  by (simp add: enhance_one_def Let_def case_prod_unfold)

theorem enhanced_rows_keep_delimiter_counterexample:
  "fst (enhanced_transcripts ex_env ex_disk) = None \<and>
   enhanced_tbl (snd (enhanced_transcripts ex_env ex_disk)) =
     [[(''contact_id'', SInt 8), (''messages'', SInt 1), (''mean_delay'', SNone),
       (''first_message'', SStr ''a|b'')]] \<and>
   CHR ''|'' \<in> set ''a|b''"
proof -
  let ?w1 = "fold (\<lambda>contact_id. log_add INFO ''Processing transcript for contact_id %s''
                                    (ArgId contact_id)) [Some 8] ex_disk"
  have rows: "fst (load_transcripts_df ex_env [8] ?w1) = [[(''contact_id'', SInt 8)]]"
    by (simp add: load_transcripts_df_def ex_env_def ex_disk_def column_def)
  have t: "enhanced_tbl ex_disk = []" by (simp add: ex_disk_def)
  have d: "distinct (map fst [(''messages'', SInt 1), (''mean_delay'', SNone),
                               (''first_message'', SStr ''a|b'')])" by simp
  have "enhance_one ex_env 8 ?w1 =
      (None, (snd (load_transcripts_df ex_env [8] ?w1))
               \<lparr>store_calls := store_calls (snd (load_transcripts_df ex_env [8] ?w1)) @
                  [PostgrezLoad Enhanced 1],
                enhanced_tbl := enhanced_tbl (snd (load_transcripts_df ex_env [8] ?w1)) @
                  [[(''contact_id'', SInt 8), (''messages'', SInt 1), (''mean_delay'', SNone),
                    (''first_message'', SStr ''a|b'')]]\<rparr>)"
    unfolding ex_enhance_one rows ex_summary ex_replace_nans
    by (rule load_enhanced_transcript_row [OF d])
  then show ?thesis
    unfolding enhanced_transcripts_def Let_def ex_to_enhance
    by (simp add: t)
qed

theorem parse_transcript_empty_messages_witness:
  "parse_transcript ex_env ''/data/8_data.txt'' ex_disk =
     (Some IndexError, log_add INFO ''Parsing transcript file %s'' (ArgStr ''/data/8_data.txt'') ex_disk) \<and>
   transcripts_tbl (snd (parse_transcript ex_env ''/data/8_data.txt'' ex_disk)) = transcripts_tbl ex_disk"
  using parse_transcript_empty_messages [OF ex_read_transcripts(2) ex_messages(2)]
  by simp

subsection \<open>The pipeline\<close>

lemma download_day_frame:
  "contacts_tbl (snd (download_day e it d w)) = contacts_tbl w"
  "transcripts_tbl (snd (download_day e it d w)) = transcripts_tbl w"
  "enhanced_tbl (snd (download_day e it d w)) = enhanced_tbl w"
  "log_out (snd (download_day e it d w)) = log_out w"
  "remote_calls (snd (download_day e it d w)) = remote_calls w \<or>
   (\<exists>win. remote_calls (snd (download_day e it d w)) = remote_calls w @ [GetContacts it win])"
  by (simp_all add: download_day_def Let_def split: sum.splits)

lemma download_days_frame_all:
  "contacts_tbl (snd (download_days e it ds w)) = contacts_tbl w \<and>
   transcripts_tbl (snd (download_days e it ds w)) = transcripts_tbl w \<and>
   enhanced_tbl (snd (download_days e it ds w)) = enhanced_tbl w \<and>
   log_out (snd (download_days e it ds w)) = log_out w \<and>
   (\<forall>c \<in> set (remote_calls (snd (download_days e it ds w))).
      c \<in> set (remote_calls w) \<or> (\<exists>win. c = GetContacts it win))"
proof (induction ds arbitrary: w)
  case Nil
  show ?case by simp
next
  case (Cons d ds)
  obtain r w1 where p: "download_day e it d w = (r, w1)" by (cases "download_day e it d w")
  from download_day_frame [of e it d w] p
  have w1: "contacts_tbl w1 = contacts_tbl w" "transcripts_tbl w1 = transcripts_tbl w"
    "enhanced_tbl w1 = enhanced_tbl w" "log_out w1 = log_out w"
    "remote_calls w1 = remote_calls w \<or> (\<exists>win. remote_calls w1 = remote_calls w @ [GetContacts it win])"
    by simp_all
  from w1(5) have calls: "\<forall>c \<in> set (remote_calls w1).
      c \<in> set (remote_calls w) \<or> (\<exists>win. c = GetContacts it win)" by auto
  show ?case
  proof (cases r)
    case None
    with p have "download_days e it (d # ds) w = download_days e it ds w1" by simp
    with Cons.IH [of w1] w1(1-4) calls show ?thesis by auto
  next
    case (Some err)
    with p have "download_days e it (d # ds) w = (Some err, w1)" by simp
    with w1(1-4) calls show ?thesis by simp
  qed
qed

lemma download_contacts_frame_all:
  "contacts_tbl (snd (download_contacts e it sd ed w)) = contacts_tbl w \<and>
   transcripts_tbl (snd (download_contacts e it sd ed w)) = transcripts_tbl w \<and>
   enhanced_tbl (snd (download_contacts e it sd ed w)) = enhanced_tbl w \<and>
   log_out (snd (download_contacts e it sd ed w)) = log_out w \<and>
   (\<forall>c \<in> set (remote_calls (snd (download_contacts e it sd ed w))).
      c \<in> set (remote_calls w) \<or> (\<exists>win. c = GetContacts it win))"
proof (cases "sd \<noteq> None \<and> ed \<noteq> None")
  case True
  then obtain s t where "sd = Some s" "ed = Some t" by auto
  then show ?thesis
    using download_days_frame_all [of e it "generate_date_range s t" w]
    by (simp add: download_contacts_def)
next
  case False
  then show ?thesis
    by (auto simp: download_contacts_def Let_def split: option.splits sum.splits)
qed

lemmas download_contacts_frame =
  download_contacts_frame_all [THEN conjunct1]
  download_contacts_frame_all [THEN conjunct2, THEN conjunct1]
  download_contacts_frame_all [THEN conjunct2, THEN conjunct2, THEN conjunct1]
  download_contacts_frame_all [THEN conjunct2, THEN conjunct2, THEN conjunct2, THEN conjunct1]

lemmas download_contacts_only_contacts =
  download_contacts_frame_all [THEN conjunct2, THEN conjunct2, THEN conjunct2, THEN conjunct2]

lemma parse_contacts_files_frame_all:
  "transcripts_tbl (snd (parse_contacts_files e fs0 w)) = transcripts_tbl w \<and>
   enhanced_tbl (snd (parse_contacts_files e fs0 w)) = enhanced_tbl w \<and>
   fs (snd (parse_contacts_files e fs0 w)) = fs w \<and>
   remote_calls (snd (parse_contacts_files e fs0 w)) = remote_calls w"
proof (induction fs0 arbitrary: w)
  case Nil
  show ?case by simp
next
  case (Cons f fs0)
  obtain r w1 where p: "parse_contacts_file e (os_path_join (ICESCAPE_OUTPUT_DIR e) f) w = (r, w1)"
    by (cases "parse_contacts_file e (os_path_join (ICESCAPE_OUTPUT_DIR e) f) w")
  from parse_contacts_file_frame(1-4) [of e "os_path_join (ICESCAPE_OUTPUT_DIR e) f" w] p
  have w1: "transcripts_tbl w1 = transcripts_tbl w" "enhanced_tbl w1 = enhanced_tbl w"
    "fs w1 = fs w" "remote_calls w1 = remote_calls w" by simp_all
  show ?case
  proof (cases r)
    case None
    with p have "parse_contacts_files e (f # fs0) w = parse_contacts_files e fs0 w1" by simp
    with Cons.IH [of w1] w1 show ?thesis by simp
  next
    case (Some err)
    with p have "parse_contacts_files e (f # fs0) w = (Some err, w1)" by simp
    with w1 show ?thesis by simp
  qed
qed

lemmas parse_contacts_files_frame =
  parse_contacts_files_frame_all [THEN conjunct1]
  parse_contacts_files_frame_all [THEN conjunct2, THEN conjunct1]
  parse_contacts_files_frame_all [THEN conjunct2, THEN conjunct2, THEN conjunct1]
  parse_contacts_files_frame_all [THEN conjunct2, THEN conjunct2, THEN conjunct2]

lemma parse_contacts_files_result:
  "(case parse_contacts_files e fs0 w of (Some err, w2) \<Rightarrow> (Some err, w2) | (None, w2) \<Rightarrow> (None, w2)) =
     parse_contacts_files e fs0 w"
  by (cases "parse_contacts_files e fs0 w") (auto split: option.splits)

text \<open>
  C10. For an interaction type other than \<^verbatim>\<open>'IM'\<close>, \<^verbatim>\<open>main\<close> ends with the contacts
  loading stage: its outcome and its world are those of loading the pending contact
  artifacts after the download, or those of the download when it raises (or of the usage
  warning, when one date is missing, or of the failed step back from today, when no date
  is given on day 0). The \<^verbatim>\<open>transcripts\<close> and \<^verbatim>\<open>enhanced_transcripts\<close> relations
  are as before, and every remote call made is a contacts call.
\<close>

theorem main_other_interaction_type:
  assumes ty: "interaction_type \<noteq> ''IM''"
    and run: "main e interaction_type start_date end_date w = (r, w')"
    and sd: "sd = (if start_date = None \<and> end_date = None then Some (today e - 1) else start_date)"
    and ed: "ed = (if start_date = None \<and> end_date = None then Some (today e - 1) else end_date)"
    and dl: "download_contacts e interaction_type sd ed w = (r1, w1)"
  shows "transcripts_tbl w' = transcripts_tbl w \<and> enhanced_tbl w' = enhanced_tbl w \<and>
         (\<forall>c \<in> set (remote_calls w').
            c \<in> set (remote_calls w) \<or> (\<exists>win. c = GetContacts interaction_type win)) \<and>
         (start_date = None \<and> end_date = None \<and> today e = 0 \<longrightarrow> (r, w') = (Some OverflowError, w)) \<and>
         (\<not> (start_date = None \<and> end_date = None \<and> today e = 0) \<and> sd \<noteq> None \<and> ed \<noteq> None \<longrightarrow>
            (r1 = None \<longrightarrow> (r, w') = parse_contacts_files e (get_contacts_to_load e w1) w1) \<and>
            (r1 \<noteq> None \<longrightarrow> (r, w') = (r1, w1))) \<and>
         (sd = None \<or> ed = None \<longrightarrow>
            (r, w') = (None, log_add WARNING ''Provide both start_date and end_date. Exiting..'' NoArg w))"
proof -
  from dl have w1: "w1 = snd (download_contacts e interaction_type sd ed w)" by simp
  have f1: "transcripts_tbl w1 = transcripts_tbl w" "enhanced_tbl w1 = enhanced_tbl w"
    by (simp_all add: w1 download_contacts_frame)
  have c1: "\<forall>c \<in> set (remote_calls w1).
      c \<in> set (remote_calls w) \<or> (\<exists>win. c = GetContacts interaction_type win)"
    unfolding w1 by (rule download_contacts_only_contacts)
  consider (zero) "start_date = None \<and> end_date = None \<and> today e = 0"
    | (usage) "\<not> (start_date = None \<and> end_date = None \<and> today e = 0)" "sd = None \<or> ed = None"
    | (failed) "\<not> (start_date = None \<and> end_date = None \<and> today e = 0)" "sd \<noteq> None \<and> ed \<noteq> None"
        "r1 \<noteq> None"
    | (loaded) "\<not> (start_date = None \<and> end_date = None \<and> today e = 0)" "sd \<noteq> None \<and> ed \<noteq> None"
        "r1 = None"
    by blast
  then show ?thesis
  proof cases
    case zero
    with run have "(r, w') = (Some OverflowError, w)" by (simp add: main_def)
    with zero sd ed show ?thesis by auto
  next
    case usage
    with run sd ed have "(r, w') = (None, log_add WARNING ''Provide both start_date and end_date. Exiting..'' NoArg w)"
      by (auto simp: main_def Let_def split: if_splits)
    with usage show ?thesis by auto
  next
    case failed
    with run sd ed dl have "(r, w') = (r1, w1)"
      by (auto simp: main_def Let_def split: if_splits)
    with failed f1 c1 show ?thesis by auto
  next
    case loaded
    have "main e interaction_type start_date end_date w =
      (case parse_contacts_files e (get_contacts_to_load e w1) w1 of
         (Some err, w2) \<Rightarrow> (Some err, w2) | (None, w2) \<Rightarrow> (None, w2))"
      using loaded ty sd ed dl
      by (auto simp: main_def Let_def split: if_splits prod.splits option.splits)
    then have "main e interaction_type start_date end_date w =
        parse_contacts_files e (get_contacts_to_load e w1) w1"
      by (simp only: parse_contacts_files_result)
    with run have eq: "(r, w') = parse_contacts_files e (get_contacts_to_load e w1) w1" by simp
    then have w': "w' = snd (parse_contacts_files e (get_contacts_to_load e w1) w1)"
      by (metis snd_conv)
    have 1: "transcripts_tbl w' = transcripts_tbl w"
      by (simp add: w' parse_contacts_files_frame f1)
    have 2: "enhanced_tbl w' = enhanced_tbl w"
      by (simp add: w' parse_contacts_files_frame f1)
    have 3: "\<forall>c \<in> set (remote_calls w').
              c \<in> set (remote_calls w) \<or> (\<exists>win. c = GetContacts interaction_type win)"
      using c1 by (simp add: w' parse_contacts_files_frame)
    from loaded eq 1 2 3 show ?thesis by blast
  qed
qed

theorem main_other_interaction_type_witness:
  "transcripts_tbl (snd (main ex_env ''Voice'' (Some 736724) (Some 736724) ex_disk)) =
     [[(''contact_id'', SInt 8)]] \<and>
   enhanced_tbl (snd (main ex_env ''Voice'' (Some 736724) (Some 736724) ex_disk)) = []"
proof -
  have ty: "''Voice'' \<noteq> ''IM''" by simp
  have t: "transcripts_tbl ex_disk = [[(''contact_id'', SInt 8)]]" "enhanced_tbl ex_disk = []"
    by (simp_all add: ex_disk_def)
  from main_other_interaction_type [OF ty surjective_pairing refl refl surjective_pairing,
      of ex_env "Some 736724" "Some 736724" ex_disk]
  show ?thesis by (simp only: t)
qed

lemma main_IM_continues:
  "download_contacts e ''IM'' (Some s) (Some t) w = (None, w1) \<Longrightarrow>
   main e ''IM'' (Some s) (Some t) w =
     (case parse_contacts_files e (get_contacts_to_load e w1) w1 of
        (Some err, w2) \<Rightarrow> (Some err, w2)
      | (None, w2) \<Rightarrow> transcript_stages e w2)"
  by (simp add: main_def Let_def split: prod.splits option.splits)

end
